theory Spec2Isabelle
  imports Complex_Main "HOL-Library.Log_Nat" "HOL-Library.Word"
begin

section \<open>Secureshare: the file transfer protocol of App.tsx\<close>

text \<open>
  The development embeds the transfer logic of \<^verbatim>\<open>src/project/src/App.tsx\<close>: the
  sender \<^verbatim>\<open>sendFile\<close> with its chunk loop \<^verbatim>\<open>sendNextChunk\<close>, the receiver
  \<^verbatim>\<open>handleReceivedData\<close> with \<^verbatim>\<open>assembleAndDownloadFile\<close>, and \<^verbatim>\<open>switchMode\<close>.

  Conventions of the embedding.
  \<^item> A handler of a React function component is a closure of one render: it reads the
    state variables (\<^verbatim>\<open>useState\<close>) of that render, while refs (\<^verbatim>\<open>useRef\<close>) are read
    live and every setter and ref assignment writes to the live application. Each handler
    therefore takes the render it closes over (a \<open>Render\<close>) and the live application.
  \<^item> Calls on external objects (the PeerJS connection and peer, toasts, the console, the
    download anchor) are appended to a log of effects in call order. The \<^verbatim>\<open>toast\<close> of
    react-hot-toast has \<^verbatim>\<open>success\<close> and \<^verbatim>\<open>error\<close> but no \<^verbatim>\<open>info\<close>: the call
    \<^verbatim>\<open>toast.info(...)\<close> throws a TypeError, which the enclosing \<^verbatim>\<open>catch\<close> handles. Every
    other call on these objects returns normally.
  \<^item> The code is event driven. A \<^verbatim>\<open>setTimeout\<close> callback is kept as a pending timer
    and run by \<open>fire\<close>; a read handed to the \<^verbatim>\<open>FileReader\<close> is kept as a pending read
    and completed by \<open>deliver\<close>, which runs \<^verbatim>\<open>reader.onload\<close> or \<^verbatim>\<open>reader.onerror\<close>.
  \<^item> JavaScript Numbers that hold sizes, counters and indices are natural numbers; a
    division is rounded to binary64, as are the products computed from it.
\<close>

subsection \<open>JavaScript Numbers: binary64 rounding\<close>

text \<open>\<open>ilog2 x\<close> is the binary exponent of a positive rational: \<open>2^e \<le> x < 2^(e+1)\<close>.\<close>

definition ilog2 :: "rat \<Rightarrow> int" where
  "ilog2 x = (if 1 \<le> x then int (floorlog 2 (nat \<lfloor>x\<rfloor>)) - 1
              else - int (floorlog 2 (nat \<lceil>1 / x\<rceil> - 1)))"

text \<open>Round to the nearest integer, ties to the even one.\<close>

definition rne :: "rat \<Rightarrow> int" where
  "rne x = (let n = \<lfloor>x\<rfloor>; d = x - of_int n in
            if d < 1 / 2 then n else if 1 / 2 < d then n + 1
            else if even n then n else n + 1)"

text \<open>
  \<open>fl x\<close> is the binary64 value nearest to a non-negative rational \<open>x\<close> (53 significant
  bits, round to nearest, ties to even). The exponent range of binary64 is not modelled:
  the quotients and products of the program lie far inside it.
\<close>

definition fl :: "rat \<Rightarrow> rat" where
  "fl x = (if x \<le> 0 then 0
           else let ulp = 2 powi (ilog2 x - 52) in of_int (rne (x / ulp)) * ulp)"

datatype Number = Num rat | Infinity | NaN

text \<open>\<^verbatim>\<open>a / b\<close> on non-negative integers.\<close>

definition js_div :: "nat \<Rightarrow> nat \<Rightarrow> Number" where
  "js_div a b = (if b = 0 then (if a = 0 then NaN else Infinity)
                 else Num (fl (of_nat a / of_nat b)))"

text \<open>\<^verbatim>\<open>x * 100\<close> on a non-negative Number.\<close>

fun js_times100 :: "Number \<Rightarrow> Number" where
  "js_times100 (Num x) = Num (fl (x * 100))"
| "js_times100 Infinity = Infinity"
| "js_times100 NaN = NaN"

text \<open>\<^verbatim>\<open>Math.round\<close>: the nearest integer, ties towards \<open>+\<infinity>\<close>.\<close>

fun Math_round :: "Number \<Rightarrow> Number" where
  "Math_round (Num x) = Num (of_int \<lfloor>x + 1 / 2\<rfloor>)"
| "Math_round Infinity = Infinity"
| "Math_round NaN = NaN"

text \<open>\<^verbatim>\<open>Math.round((n / total) * 100)\<close>, the progress formula of both sides.\<close>

definition progress_of :: "nat \<Rightarrow> nat \<Rightarrow> Number" where
  "progress_of n totalChunks = Math_round (js_times100 (js_div n totalChunks))"

text \<open>The comparison \<^verbatim>\<open><=\<close> of JavaScript on these Numbers: false as soon as one side is NaN.\<close>

fun js_le :: "Number \<Rightarrow> Number \<Rightarrow> bool" where
  "js_le (Num a) (Num b) = (a \<le> b)"
| "js_le (Num a) Infinity = True"
| "js_le Infinity Infinity = True"
| "js_le _ _ = False"

subsection \<open>Files, messages, effects\<close>

type_synonym byte = "8 word"
type_synonym ArrayBuffer = "byte list"

record File =
  file_name :: string
  file_type :: string
  file_bytes :: "byte list"

definition file_size :: "File \<Rightarrow> nat" where
  "file_size f = length (file_bytes f)"

text \<open>\<^verbatim>\<open>file.slice(start, end)\<close> for \<open>0 \<le> start\<close>, \<open>0 \<le> end\<close>: both ends are clamped to the size.\<close>

definition slice :: "File \<Rightarrow> nat \<Rightarrow> nat \<Rightarrow> ArrayBuffer" where
  "slice f start end = take (min end (file_size f) - min start (file_size f))
                            (drop (min start (file_size f)) (file_bytes f))"

text \<open>
  What travels over the channel. The receiver takes \<^verbatim>\<open>data: any\<close>, so every field of a
  tagged object may be absent (\<open>None\<close>); \<open>Text\<close> is a payload that is not an object (the
  acknowledgement is the plain string \<^verbatim>\<open>FILE_RECEIVED_SUCCESSFULLY\<close>), \<open>OtherObject\<close> an
  object with any other \<^verbatim>\<open>type\<close>.
\<close>

datatype message =
    FILE_METADATA "string option" "nat option" "string option"
  | FILE_CHUNK "ArrayBuffer option" "nat option" "nat option"
  | FILE_COMPLETE
  | OtherObject string
  | Text string

datatype Peer = Peer string
datatype DataConnection = DataConnection string

datatype logged = TypeOf string | Caught string

datatype effect =
    Send message
  | Close DataConnection
  | Destroy Peer
  | Toast string string
  | Console string string
  | ConsoleWith string string logged
  | Download string string ArrayBuffer

text \<open>
  \<open>Send\<close> is \<^verbatim>\<open>connectionRef.current.send\<close>, \<open>Close\<close> and \<open>Destroy\<close> are \<^verbatim>\<open>close()\<close> and
  \<^verbatim>\<open>destroy()\<close>, \<open>Toast kind text\<close> is \<^verbatim>\<open>toast.kind(text)\<close>, \<open>Console level text\<close> is
  \<^verbatim>\<open>console.level(text)\<close>, \<open>ConsoleWith level text v\<close> is \<^verbatim>\<open>console.level(text, v)\<close> with
  \<open>v\<close> the result of a \<^verbatim>\<open>typeof\<close> or a caught error, named by its class, and
  \<open>Download name type bytes\<close> is the click on the anchor built around the Blob (the
  timer that removes the anchor 100 ms later touches nothing of the component).
\<close>

subsection \<open>The component: state variables, refs, pending timers\<close>

record Render =
  roomId :: string
  joinMode :: bool
  joinRoomId :: string
  connectionStatus :: string
  selectedFile :: "File option"
  transferProgress :: Number
  transferStatus :: string
  receivedFileName :: string
  receivedFileSize :: nat
  receivedFileType :: string
  peerReady :: bool
  connectionReady :: bool

datatype timer = SendComplete Render | Watchdog Render

text \<open>
  A read in flight: the environment of the \<^verbatim>\<open>reader.onload\<close> closure that
  \<^verbatim>\<open>sendNextChunk\<close> installs (the render of \<^verbatim>\<open>sendFile\<close>, the file, \<^verbatim>\<open>totalChunks\<close>,
  the counter \<^verbatim>\<open>chunksProcessed\<close>, \<^verbatim>\<open>end\<close>) and the blob given to \<^verbatim>\<open>readAsArrayBuffer\<close>.
\<close>

record ReadRequest =
  rq_render :: Render
  rq_file :: File
  rq_totalChunks :: nat
  rq_chunksProcessed :: nat
  rq_end :: nat
  rq_blob :: ArrayBuffer

record App = Render +
  peerRef :: "Peer option"
  connectionRef :: "DataConnection option"
  fileChunksRef :: "ArrayBuffer option list"
  totalChunksRef :: nat
  receivedChunksRef :: nat
  reads :: "ReadRequest list"
  timers :: "timer list"
  effects :: "effect list"

text \<open>The render of the live application: what a handler created now closes over.\<close>

definition render :: "App \<Rightarrow> Render" where
  "render s = Render.truncate s"

definition emit :: "effect list \<Rightarrow> App \<Rightarrow> App" where
  "emit es s = s\<lparr>effects := effects s @ es\<rparr>"

fun sent_of :: "effect list \<Rightarrow> message list" where
  "sent_of [] = []"
| "sent_of (Send m # es) = m # sent_of es"
| "sent_of (e # es) = sent_of es"

subsection \<open>The receiver\<close>

text \<open>
  \<^verbatim>\<open>array[i] = v\<close> on a JavaScript array: an index past the end extends the array and
  leaves holes (\<open>None\<close>) in between.
\<close>

definition array_set :: "'a option list \<Rightarrow> nat \<Rightarrow> 'a \<Rightarrow> 'a option list" where
  "array_set xs i v = (if i < length xs then xs[i := Some v]
                       else xs @ replicate (i - length xs) None @ [Some v])"

text \<open>\<^verbatim>\<open>reduce((total, chunk) => total + (chunk ? chunk.byteLength : 0), 0)\<close>\<close>

fun total_byteLength :: "nat \<Rightarrow> ArrayBuffer option list \<Rightarrow> nat" where
  "total_byteLength tot [] = tot"
| "total_byteLength tot (chunk # rest) =
     total_byteLength (tot + (case chunk of Some b \<Rightarrow> length b | None \<Rightarrow> 0)) rest"

text \<open>\<^verbatim>\<open>fileData.set(new Uint8Array(chunk), offset)\<close>; the source never writes past the end.\<close>

definition uint8_set :: "byte list \<Rightarrow> byte list \<Rightarrow> nat \<Rightarrow> byte list" where
  "uint8_set fileData chunk offset =
     take offset fileData @ chunk @ drop (offset + length chunk) fileData"

text \<open>The loop \<^verbatim>\<open>for (const chunk of fileChunksRef.current)\<close> with its running offset.\<close>

fun copy_chunks :: "ArrayBuffer option list \<Rightarrow> nat \<Rightarrow> byte list \<Rightarrow> byte list" where
  "copy_chunks [] offset fileData = fileData"
| "copy_chunks (None # rest) offset fileData = copy_chunks rest offset fileData"
| "copy_chunks (Some b # rest) offset fileData =
     copy_chunks rest (offset + length b) (uint8_set fileData b offset)"

text \<open>\<^verbatim>\<open>x || d\<close> on a string.\<close>

definition or_else :: "string \<Rightarrow> string \<Rightarrow> string" where
  "or_else x d = (if x = [] then d else x)"

definition assembleAndDownloadFile :: "Render \<Rightarrow> App \<Rightarrow> App" where
  "assembleAndDownloadFile c s =
    (if length (fileChunksRef s) = 0 then
       (emit [Console ''error'' ''No file chunks to assemble'',
              Toast ''error'' ''Error downloading file: No data received''] s)
         \<lparr>transferStatus := ''error''\<rparr>
     else
       let fileSize = total_byteLength 0 (fileChunksRef s) in
       if fileSize = 0 then
         (emit [Console ''error'' ''File size is zero'',
                Toast ''error'' ''Error downloading file: Empty file''] s)
           \<lparr>transferStatus := ''error''\<rparr>
       else
         let fileData = copy_chunks (fileChunksRef s) 0 (replicate fileSize 0);
             s1 = emit [Download (or_else (receivedFileName c) ''downloaded_file'')
                                 (or_else (receivedFileType c) ''application/octet-stream'')
                                 fileData] s;
             s2 = s1\<lparr>transferStatus := ''completed''\<rparr>;
             s3 = emit [Toast ''success'' ''File downloaded successfully!''] s2
         in if connectionRef s3 \<noteq> None \<and> connectionReady c
            then emit [Send (Text ''FILE_RECEIVED_SUCCESSFULLY'')] s3
            else s3)"

text \<open>
  In the \<^verbatim>\<open>FILE_METADATA\<close> branch the refs are reset and the four setters are called;
  then \<^verbatim>\<open>toast.info\<close> throws, and the \<^verbatim>\<open>catch\<close> of \<^verbatim>\<open>handleReceivedData\<close> logs the
  error and raises the error toast. No other branch throws.
\<close>

fun handleReceivedData :: "Render \<Rightarrow> message \<Rightarrow> App \<Rightarrow> App" where
  "handleReceivedData c (Text t) s =
     emit [ConsoleWith ''warn'' ''Received invalid data format:'' (TypeOf ''string'')] s"
| "handleReceivedData c (FILE_METADATA name sz fileType) s =
     (let s1 = s\<lparr>fileChunksRef := [], receivedChunksRef := 0, totalChunksRef := 0\<rparr>;
          shown = or_else (case name of Some n \<Rightarrow> n | None \<Rightarrow> []) ''unknown'';
          s2 = s1\<lparr>receivedFileName := shown,
                  receivedFileSize := (case sz of Some n \<Rightarrow> n | None \<Rightarrow> 0),
                  receivedFileType := (case fileType of Some t \<Rightarrow> t | None \<Rightarrow> []),
                  transferStatus := ''receiving''\<rparr>
      in emit [ConsoleWith ''error'' ''Error processing received data:'' (Caught ''TypeError''),
               Toast ''error'' ''Error processing received data''] s2)"
| "handleReceivedData c (FILE_CHUNK None chunkIndex totalChunks) s =
     emit [Console ''warn'' ''Received chunk without data''] s"
| "handleReceivedData c (FILE_CHUNK (Some buf) chunkIndex totalChunks) s =
     (let s1 = (case totalChunks of
                  Some n \<Rightarrow> if totalChunksRef s = 0 \<and> n \<noteq> 0 then s\<lparr>totalChunksRef := n\<rparr> else s
                | None \<Rightarrow> s)
      in case chunkIndex of
           None \<Rightarrow> s1
         | Some i \<Rightarrow>
             let s2 = s1\<lparr>fileChunksRef := array_set (fileChunksRef s1) i buf,
                         receivedChunksRef := receivedChunksRef s1 + 1\<rparr>;
                 progress = progress_of (receivedChunksRef s2) (totalChunksRef s2);
                 s3 = s2\<lparr>transferProgress := progress\<rparr>
             in if progress = Num 100 then s3\<lparr>timers := timers s3 @ [Watchdog c]\<rparr> else s3)"
| "handleReceivedData c FILE_COMPLETE s = assembleAndDownloadFile c s"
| "handleReceivedData c (OtherObject t) s = s"

text \<open>
  The data handler registered by \<^verbatim>\<open>joinRoom\<close> keeps the \<^verbatim>\<open>handleReceivedData\<close> of the
  render in which the room was joined, so one closure handles every message of a session.
\<close>

definition receive :: "Render \<Rightarrow> message list \<Rightarrow> App \<Rightarrow> App" where
  "receive c msgs s = foldl (\<lambda>s m. handleReceivedData c m s) s msgs"

subsection \<open>The sender\<close>

definition CHUNK_SIZE :: nat where
  "CHUNK_SIZE = 16384"

text \<open>\<^verbatim>\<open>Math.ceil(file.size / CHUNK_SIZE)\<close>\<close>

definition totalChunks_of :: "File \<Rightarrow> nat" where
  "totalChunks_of file = nat \<lceil>fl (of_nat (file_size file) / of_nat CHUNK_SIZE)\<rceil>"

text \<open>
  \<^verbatim>\<open>sendNextChunk(start)\<close> either schedules the completion marker or installs the handlers
  and hands one slice to the reader; it returns before the read completes.
\<close>

definition sendNextChunk :: "Render \<Rightarrow> File \<Rightarrow> nat \<Rightarrow> nat \<Rightarrow> nat \<Rightarrow> App \<Rightarrow> App" where
  "sendNextChunk c file totalChunks chunksProcessed start s =
    (if start \<ge> file_size file then s\<lparr>timers := timers s @ [SendComplete c]\<rparr>
     else
       let end = min (start + CHUNK_SIZE) (file_size file);
           chunk = slice file start end
       in s\<lparr>reads := reads s @
              [\<lparr>rq_render = c, rq_file = file, rq_totalChunks = totalChunks,
                rq_chunksProcessed = chunksProcessed, rq_end = end, rq_blob = chunk\<rparr>]\<rparr>)"

definition not_ready :: "App \<Rightarrow> App" where
  "not_ready s =
     (emit [Console ''error'' ''Connection not ready or reader result is null'',
            Toast ''error'' ''Connection not ready. Please try again.''] s)
       \<lparr>transferStatus := ''error''\<rparr>"

text \<open>\<^verbatim>\<open>reader.onload\<close>, with \<^verbatim>\<open>e.target.result\<close> as \<open>result\<close>.\<close>

definition reader_onload :: "ReadRequest \<Rightarrow> ArrayBuffer option \<Rightarrow> App \<Rightarrow> App" where
  "reader_onload rq result s =
    (case result of
       None \<Rightarrow> not_ready s
     | Some buf \<Rightarrow>
         if connectionRef s \<noteq> None \<and> connectionReady (rq_render rq) then
           let s1 = emit [Send (FILE_CHUNK (Some buf) (Some (rq_chunksProcessed rq))
                                           (Some (rq_totalChunks rq)))] s;
               chunksProcessed = rq_chunksProcessed rq + 1;
               progress = progress_of chunksProcessed (rq_totalChunks rq);
               s2 = s1\<lparr>transferProgress := progress\<rparr>;
               s3 = s2\<lparr>transferStatus := ''sending''\<rparr>
           in sendNextChunk (rq_render rq) (rq_file rq) (rq_totalChunks rq) chunksProcessed
                (rq_end rq) s3
         else not_ready s)"

definition reader_onerror :: "App \<Rightarrow> App" where
  "reader_onerror s =
     (emit [Console ''error'' ''Error reading file chunk'',
            Toast ''error'' ''Error reading file. Please try again.''] s)
       \<lparr>transferStatus := ''error''\<rparr>"

definition sendFile :: "Render \<Rightarrow> File \<Rightarrow> App \<Rightarrow> App" where
  "sendFile c file s =
    (if connectionRef s = None \<or> connectionStatus c \<noteq> ''connected'' \<or> \<not> connectionReady c then
       emit [Toast ''error'' ''No active connection. Please wait for the receiver to connect.''] s
     else
       let s1 = s\<lparr>transferStatus := ''preparing''\<rparr>;
           metadata = FILE_METADATA (Some (file_name file)) (Some (file_size file))
                                    (Some (file_type file));
           s2 = emit [Send metadata] s1;
           totalChunks = totalChunks_of file
       in sendNextChunk c file totalChunks 0 0 s2)"

text \<open>The data handler of the sender's connection (the acknowledgement).\<close>

definition sender_on_data :: "message \<Rightarrow> App \<Rightarrow> App" where
  "sender_on_data m s =
    (if m = Text ''FILE_RECEIVED_SUCCESSFULLY'' then
       (emit [Toast ''success'' ''File successfully received by the receiver!''] s)
         \<lparr>transferStatus := ''completed''\<rparr>
     else s)"

subsection \<open>Events of the environment\<close>

datatype ReaderEvent = Load | Error

text \<open>
  The oldest pending read completes: with \<open>Load\<close> the reader hands the bytes of the blob
  to \<^verbatim>\<open>onload\<close>, with \<open>Error\<close> it calls \<^verbatim>\<open>onerror\<close>.
\<close>

definition deliver :: "ReaderEvent \<Rightarrow> App \<Rightarrow> App" where
  "deliver ev s =
    (case reads s of
       [] \<Rightarrow> s
     | rq # rest \<Rightarrow>
         (case ev of
            Load \<Rightarrow> reader_onload rq (Some (rq_blob rq)) (s\<lparr>reads := rest\<rparr>)
          | Error \<Rightarrow> reader_onerror (s\<lparr>reads := rest\<rparr>)))"

text \<open>The bodies of the two \<^verbatim>\<open>setTimeout\<close> callbacks.\<close>

fun run_timer :: "timer \<Rightarrow> App \<Rightarrow> App" where
  "run_timer (SendComplete c) s =
     (if connectionRef s \<noteq> None \<and> connectionReady c
      then (emit [Send FILE_COMPLETE] s)\<lparr>transferStatus := ''sent''\<rparr>
      else s)"
| "run_timer (Watchdog c) s =
     (if transferStatus c = ''receiving'' then assembleAndDownloadFile c s else s)"

text \<open>The oldest pending timer expires.\<close>

definition fire :: "App \<Rightarrow> App" where
  "fire s = (case timers s of [] \<Rightarrow> s | t # rest \<Rightarrow> run_timer t (s\<lparr>timers := rest\<rparr>))"

subsection \<open>Switching the role\<close>

definition switchMode :: "Render \<Rightarrow> App \<Rightarrow> App" where
  "switchMode c s =
    (let s1 = s\<lparr>joinMode := \<not> joinMode c, connectionStatus := ''disconnected'',
                selectedFile := None, transferProgress := Num 0, transferStatus := [],
                joinRoomId := [], peerReady := False, connectionReady := False\<rparr>;
         s2 = (case connectionRef s1 of
                 Some conn \<Rightarrow> (emit [Close conn] s1)\<lparr>connectionRef := None\<rparr>
               | None \<Rightarrow> s1)
     in case peerRef s2 of
          Some peer \<Rightarrow> (emit [Destroy peer] s2)\<lparr>peerRef := None\<rparr>
        | None \<Rightarrow> s2)"

text \<open>
  A handler invoked from the current render, as a click on a button of the page is: the
  closure and the live application agree on the state variables.
\<close>

definition from_current_render :: "(Render \<Rightarrow> App \<Rightarrow> App) \<Rightarrow> App \<Rightarrow> App" where
  "from_current_render handler s = handler (render s) s"

subsection \<open>Notions used in the statements\<close>

text \<open>The component as first rendered: the initial values of \<^verbatim>\<open>useState\<close> and \<^verbatim>\<open>useRef\<close>.\<close>

definition initial :: App where
  "initial = \<lparr>roomId = [], joinMode = False, joinRoomId = [],
     connectionStatus = ''disconnected'', selectedFile = None, transferProgress = Num 0,
     transferStatus = [], receivedFileName = [], receivedFileSize = 0,
     receivedFileType = [], peerReady = False, connectionReady = False,
     peerRef = None, connectionRef = None, fileChunksRef = [], totalChunksRef = 0,
     receivedChunksRef = 0, reads = [], timers = [], effects = []\<rparr>"

text \<open>The bytes held by one slot of the accumulation buffer; a hole holds none.\<close>

fun chunk_bytes :: "ArrayBuffer option \<Rightarrow> byte list" where
  "chunk_bytes (Some b) = b"
| "chunk_bytes None = []"

text \<open>
  The number of chunks of a file, its \<open>k\<close>-th block of \<open>CHUNK_SIZE\<close> bytes, and the
  messages of one transfer in the order of the protocol.
\<close>

definition chunk_count :: "File \<Rightarrow> nat" where
  "chunk_count f = (file_size f + CHUNK_SIZE - 1) div CHUNK_SIZE"

definition nth_chunk :: "File \<Rightarrow> nat \<Rightarrow> ArrayBuffer" where
  "nth_chunk f k = take CHUNK_SIZE (drop (k * CHUNK_SIZE) (file_bytes f))"

definition metadata_of :: "File \<Rightarrow> message" where
  "metadata_of f = FILE_METADATA (Some (file_name f)) (Some (file_size f)) (Some (file_type f))"

definition chunk_message :: "File \<Rightarrow> nat \<Rightarrow> message" where
  "chunk_message f k = FILE_CHUNK (Some (nth_chunk f k)) (Some k) (Some (totalChunks_of f))"

definition transfer_messages :: "File \<Rightarrow> message list" where
  "transfer_messages f =
     metadata_of f # map (chunk_message f) [0..<chunk_count f] @ [FILE_COMPLETE]"

text \<open>
  The uninterrupted run of one transfer: \<^verbatim>\<open>sendFile\<close> is called, every read completes
  in turn, then the timer expires. No other event comes in between.
\<close>

definition run_transfer :: "Render \<Rightarrow> File \<Rightarrow> App \<Rightarrow> App" where
  "run_transfer c f s = fire ((deliver Load ^^ chunk_count f) (sendFile c f s))"

text \<open>What was sent between two states of an application, and the payload sizes in it.\<close>

definition transmitted :: "App \<Rightarrow> App \<Rightarrow> message list" where
  "transmitted s s' = drop (length (sent_of (effects s))) (sent_of (effects s'))"

fun chunk_sizes :: "message list \<Rightarrow> nat list" where
  "chunk_sizes [] = []"
| "chunk_sizes (FILE_CHUNK (Some b) i t # ms) = length b # chunk_sizes ms"
| "chunk_sizes (m # ms) = chunk_sizes ms"

text \<open>
  Closed forms for the proofs: the read pending for chunk \<open>k\<close>, the sender after the
  metadata and \<open>k\<close> completed reads, and the receiver after the metadata and the first
  \<open>k\<close> chunks of a file (with \<open>ts\<close> for its pending timers).
\<close>

definition request :: "Render \<Rightarrow> File \<Rightarrow> nat \<Rightarrow> ReadRequest" where
  "request c f k = \<lparr>rq_render = c, rq_file = f, rq_totalChunks = totalChunks_of f,
     rq_chunksProcessed = k, rq_end = min (k * CHUNK_SIZE + CHUNK_SIZE) (file_size f),
     rq_blob = nth_chunk f k\<rparr>"

definition sender_after :: "Render \<Rightarrow> File \<Rightarrow> App \<Rightarrow> nat \<Rightarrow> App" where
  "sender_after c f s k =
     s\<lparr>transferStatus := (if k = 0 then ''preparing'' else ''sending''),
       transferProgress := (if k = 0 then transferProgress s else progress_of k (totalChunks_of f)),
       effects := effects s @ map Send (metadata_of f # map (chunk_message f) [0..<k]),
       reads := (if k < chunk_count f then [request c f k] else []),
       timers := timers s @ (if k = chunk_count f then [SendComplete c] else [])\<rparr>"

definition receiver_after :: "File \<Rightarrow> App \<Rightarrow> nat \<Rightarrow> timer list \<Rightarrow> App" where
  "receiver_after f r k ts =
     r\<lparr>fileChunksRef := map (\<lambda>i. Some (nth_chunk f i)) [0..<k],
       receivedChunksRef := k,
       totalChunksRef := (if k = 0 then 0 else totalChunks_of f),
       receivedFileName := or_else (file_name f) ''unknown'',
       receivedFileSize := file_size f,
       receivedFileType := file_type f,
       transferStatus := ''receiving'',
       transferProgress := (if k = 0 then transferProgress r
                            else progress_of k (totalChunks_of f)),
       timers := ts,
       effects := effects r @
         [ConsoleWith ''error'' ''Error processing received data:'' (Caught ''TypeError''),
           Toast ''error'' ''Error processing received data'']\<rparr>"

text \<open>Inputs for the witnesses: a connected sender, a three-byte file, a 50000-byte file.\<close>

definition sender0 :: App where
  "sender0 = initial\<lparr>connectionStatus := ''connected'', connectionReady := True,
                      peerReady := True,
                      peerRef := Some (Peer ''4f2a9c1e''),
                      connectionRef := Some (DataConnection ''4f2a9c1e'')\<rparr>"

definition file0 :: File where
  "file0 = \<lparr>file_name = ''a.bin'', file_type = ''application/octet-stream'',
            file_bytes = [1, 2, 3]\<rparr>"

definition file50000 :: File where
  "file50000 = \<lparr>file_name = ''b.bin'', file_type = [], file_bytes = replicate 50000 0\<rparr>"

text \<open>
  A receiver: the component when \<^verbatim>\<open>joinRoom\<close> is called with a room code typed in, and
  the same component once the peer and then the connection have opened.
\<close>

definition joined0 :: App where
  "joined0 = initial\<lparr>joinMode := True, joinRoomId := ''4f2a9c1e''\<rparr>"

definition receiver0 :: App where
  "receiver0 = joined0\<lparr>peerReady := True, connectionStatus := ''connected'',
                       connectionReady := True,
                       peerRef := Some (Peer ''c81d07aa''),
                       connectionRef := Some (DataConnection ''4f2a9c1e'')\<rparr>"

section \<open>Binary64 rounding is monotone, and exact on short dyadic numbers\<close>

lemma two_powi_less_cancel:
  fixes a b :: int
  assumes "(2::rat) powi a < 2 powi b"
  shows "a < b"
proof (rule ccontr)
  assume "\<not> a < b"
  then have "b \<le> a" by simp
  then have "(2::rat) powi b \<le> 2 powi a" by (intro power_int_increasing) simp_all
  with assms show False by simp
qed

lemma ilog2_bounds:
  assumes "0 < x"
  shows "2 powi (ilog2 x) \<le> x" and "x < 2 powi (ilog2 x + 1)"
proof -
  have "2 powi (ilog2 x) \<le> x \<and> x < 2 powi (ilog2 x + 1)"
  proof (cases "1 \<le> x")
    case True
    define n where "n = nat \<lfloor>x\<rfloor>"
    define k where "k = floorlog 2 n"
    have n1: "1 \<le> n" using True by (simp add: n_def le_nat_iff)
    then have n0: "0 < n" by simp
    have kb: "2 ^ (k - 1) \<le> n" "n < 2 ^ k"
      using floorlog_bounds[of n 2] n0 by (simp_all add: k_def)
    have k1: "1 \<le> k" using kb(2) n1 by (cases k) simp_all
    have e: "ilog2 x = int k - 1" using True by (simp add: ilog2_def n_def k_def)
    have nx: "rat_of_nat n \<le> x" "x < rat_of_nat n + 1"
      using True by (simp_all add: n_def) linarith+
    have p1: "(2::rat) powi (int k - 1) = 2 ^ (k - 1)"
      using k1 by (simp add: power_int_def nat_diff_distrib')
    have p2: "(2::rat) powi (int k - 1 + 1) = 2 ^ k"
      by (simp add: power_int_def)
    have "(2::rat) ^ (k - 1) \<le> rat_of_nat n"
      using kb(1) by (metis of_nat_le_iff of_nat_numeral of_nat_power)
    then have lo: "(2::rat) ^ (k - 1) \<le> x" using nx(1) by (rule order_trans)
    have "rat_of_nat n + 1 \<le> 2 ^ k"
    proof -
      have "Suc n \<le> 2 ^ k" using kb(2) by simp
      then have "rat_of_nat (Suc n) \<le> rat_of_nat (2 ^ k)" by (simp only: of_nat_le_iff)
      then show ?thesis by simp
    qed
    with nx(2) have hi: "x < 2 ^ k" by (rule less_le_trans)
    show ?thesis unfolding e p1 p2 using lo hi by (rule conjI)
  next
    case False
    define y where "y = 1 / x"
    define n where "n = nat \<lceil>y\<rceil>"
    define m where "m = n - 1"
    define k where "k = floorlog 2 m"
    have y1: "1 < y" using False assms by (simp add: y_def)
    have cy: "2 \<le> \<lceil>y\<rceil>" using y1 by linarith
    then have n2: "2 \<le> n" by (simp add: n_def le_nat_iff)
    then have m0: "0 < m" by (simp add: m_def)
    have kb: "2 ^ (k - 1) \<le> m" "m < 2 ^ k"
      using floorlog_bounds[of m 2] m0 by (simp_all add: k_def)
    have e: "ilog2 x = - int k" using False by (simp add: ilog2_def n_def k_def m_def y_def)
    have ny: "y \<le> rat_of_nat n" "rat_of_nat n < y + 1"
      using cy by (simp_all add: n_def) linarith+
    have mn: "rat_of_nat n = rat_of_nat m + 1" using n2 by (simp add: m_def)
    have "rat_of_nat m + 1 \<le> 2 ^ k"
    proof -
      have "Suc m \<le> 2 ^ k" using kb(2) by simp
      then have "rat_of_nat (Suc m) \<le> rat_of_nat (2 ^ k)" by (simp only: of_nat_le_iff)
      then show ?thesis by simp
    qed
    then have yk: "y \<le> 2 ^ k" using ny(1) mn by linarith
    have "(2::rat) ^ (k - 1) \<le> rat_of_nat m"
      using kb(1) by (metis of_nat_le_iff of_nat_numeral of_nat_power)
    then have ky: "2 ^ (k - 1) < y" using ny(2) mn by linarith
    have k1: "1 \<le> k" using kb(2) m0 by (cases k) simp_all
    have p1: "(2::rat) powi (- int k) = 1 / 2 ^ k"
      by (simp add: power_int_def field_simps)
    have p2: "(2::rat) powi (- int k + 1) = 1 / 2 ^ (k - 1)"
      using k1 by (cases k) (simp_all add: power_int_def field_simps)
    have xy: "x = 1 / y" by (simp add: y_def)
    have "1 / 2 ^ k \<le> 1 / y" using yk y1 by (simp add: field_simps)
    then have lo: "1 / 2 ^ k \<le> x" by (simp only: xy)
    have "1 / y < 1 / 2 ^ (k - 1)" using ky y1 by (simp add: field_simps)
    then have hi: "x < 1 / 2 ^ (k - 1)" by (simp only: xy)
    show ?thesis unfolding e p1 p2 using lo hi by (rule conjI)
  qed
  then show "2 powi (ilog2 x) \<le> x" and "x < 2 powi (ilog2 x + 1)" by simp_all
qed

lemma ilog2_unique:
  assumes "0 < x" "2 powi e \<le> x" "x < 2 powi (e + 1)"
  shows "ilog2 x = e"
proof -
  have "(2::rat) powi e < 2 powi (ilog2 x + 1)"
    using assms(2) ilog2_bounds(2)[OF assms(1)] by simp
  then have a: "e < ilog2 x + 1" by (rule two_powi_less_cancel)
  have "(2::rat) powi (ilog2 x) < 2 powi (e + 1)"
    using assms(3) ilog2_bounds(1)[OF assms(1)] by simp
  then have "ilog2 x < e + 1" by (rule two_powi_less_cancel)
  with a show ?thesis by simp
qed

lemma ilog2_mono:
  assumes "0 < x" "x \<le> y"
  shows "ilog2 x \<le> ilog2 y"
proof -
  have "0 < y" using assms by simp
  then have "y < 2 powi (ilog2 y + 1)" by (rule ilog2_bounds)
  then have "(2::rat) powi (ilog2 x) < 2 powi (ilog2 y + 1)"
    using ilog2_bounds(1)[OF assms(1)] assms(2) by simp
  then have "ilog2 x < ilog2 y + 1" by (rule two_powi_less_cancel)
  then show ?thesis by simp
qed

lemma rne_of_int [simp]: "rne (of_int n) = n"
  by (simp add: rne_def)

lemma rne_bounds: "\<lfloor>x\<rfloor> \<le> rne x" "rne x \<le> \<lfloor>x\<rfloor> + 1"
  by (simp_all add: rne_def Let_def)

lemma rne_mono:
  assumes "x \<le> y"
  shows "rne x \<le> rne y"
proof (cases "\<lfloor>x\<rfloor> = \<lfloor>y\<rfloor>")
  case True
  then show ?thesis using assms by (auto simp: rne_def Let_def)
next
  case False
  then have "\<lfloor>x\<rfloor> + 1 \<le> \<lfloor>y\<rfloor>" using floor_mono[OF assms] by simp
  then show ?thesis using rne_bounds(2)[of x] rne_bounds(1)[of y] by linarith
qed

lemma rne_ge_int: "of_int n \<le> x \<Longrightarrow> n \<le> rne x"
  using rne_mono[of "of_int n" x] by simp

lemma rne_le_int: "x \<le> of_int n \<Longrightarrow> rne x \<le> n"
  using rne_mono[of x "of_int n"] by simp

lemma fl_pos_bounds:
  assumes "0 < x"
  shows "2 powi (ilog2 x) \<le> fl x" and "fl x \<le> 2 powi (ilog2 x + 1)"
proof -
  define u :: rat where "u = 2 powi (ilog2 x - 52)"
  have u0: "0 < u" by (simp add: u_def)
  have f: "fl x = of_int (rne (x / u)) * u" using assms by (simp add: fl_def u_def Let_def)
  have lo: "2 powi (ilog2 x) = (2 ^ 52) * u"
    by (simp add: u_def power_int_diff)
  have hi: "2 powi (ilog2 x + 1) = (2 ^ 53) * u"
    by (simp add: u_def power_int_diff power_int_add)
  have "2 ^ 52 * u \<le> x" using ilog2_bounds(1)[OF assms] unfolding lo .
  then have "of_int (2 ^ 52) \<le> x / u"
    using u0 by (simp add: field_simps)
  then have "2 ^ 52 \<le> rne (x / u)" by (rule rne_ge_int)
  then have "rat_of_int (2 ^ 52) \<le> of_int (rne (x / u))" by (simp only: of_int_le_iff)
  then show "2 powi (ilog2 x) \<le> fl x" using u0 by (simp add: f lo)
  have "x < 2 ^ 53 * u" using ilog2_bounds(2)[OF assms] unfolding hi .
  then have "x / u \<le> of_int (2 ^ 53)"
    using u0 by (simp add: field_simps)
  then have "rne (x / u) \<le> 2 ^ 53" by (rule rne_le_int)
  then have "rat_of_int (rne (x / u)) \<le> of_int (2 ^ 53)" by (simp only: of_int_le_iff)
  then show "fl x \<le> 2 powi (ilog2 x + 1)" using u0 by (simp add: f hi)
qed

lemma fl_nonneg: "0 \<le> fl x"
proof (cases "0 < x")
  case True
  have "(0::rat) \<le> 2 powi (ilog2 x)" by simp
  then show ?thesis using fl_pos_bounds(1)[OF True] by linarith
next
  case False
  then show ?thesis by (simp add: fl_def)
qed

lemma fl_mono:
  assumes "x \<le> y"
  shows "fl x \<le> fl y"
proof (cases "0 < x")
  case False
  then have "fl x = 0" by (simp add: fl_def)
  then show ?thesis by (simp add: fl_nonneg)
next
  case True
  then have y0: "0 < y" using assms by simp
  have le: "ilog2 x \<le> ilog2 y" using True assms by (rule ilog2_mono)
  show ?thesis
  proof (cases "ilog2 x = ilog2 y")
    case same: True
    define u :: rat where "u = 2 powi (ilog2 x - 52)"
    have u0: "0 < u" by (simp add: u_def)
    have fx: "fl x = of_int (rne (x / u)) * u" using True by (simp add: fl_def u_def Let_def)
    have fy: "fl y = of_int (rne (y / u)) * u" using y0 same by (simp add: fl_def u_def Let_def)
    have "x / u \<le> y / u" using assms u0 by (simp add: divide_right_mono)
    then have "rne (x / u) \<le> rne (y / u)" by (rule rne_mono)
    then have "rat_of_int (rne (x / u)) \<le> of_int (rne (y / u))" by (simp only: of_int_le_iff)
    then show ?thesis using u0 by (simp add: fx fy)
  next
    case False
    then have "ilog2 x + 1 \<le> ilog2 y" using le by simp
    then have "(2::rat) powi (ilog2 x + 1) \<le> 2 powi (ilog2 y)"
      by (intro power_int_increasing) simp_all
    then show ?thesis
      using fl_pos_bounds(2)[OF True] fl_pos_bounds(1)[OF y0] by linarith
  qed
qed

text \<open>A dyadic rational with at most 53 significant bits is a binary64 value.\<close>

lemma fl_exact:
  assumes "0 < m" "m < 2 ^ 53"
  shows "fl (of_int m * 2 powi k) = of_int m * 2 powi k"
proof -
  define x :: rat where "x = of_int m * 2 powi k"
  define e where "e = ilog2 x"
  have x0: "0 < x" using assms(1) by (simp add: x_def)
  have "2 powi e \<le> x" unfolding e_def using x0 by (rule ilog2_bounds)
  moreover have "x < 2 ^ 53 * 2 powi k"
  proof -
    have "rat_of_int m < of_int (2 ^ 53)" using assms(2) by (simp only: of_int_less_iff)
    then show ?thesis by (simp add: x_def)
  qed
  ultimately have "(2::rat) powi e < 2 powi (53 + k)"
    by (simp add: power_int_add)
  then have "e < 53 + k" by (rule two_powi_less_cancel)
  then have d: "0 \<le> k - e + 52" by simp
  define j where "j = nat (k - e + 52)"
  have kj: "k = int j + (e - 52)" using d by (simp add: j_def)
  have "x / 2 powi (e - 52) = of_int m * (2 powi (int j + (e - 52)) / 2 powi (e - 52))"
    by (simp add: x_def kj)
  also have "(2::rat) powi (int j + (e - 52)) / 2 powi (e - 52) = 2 ^ j"
    by (simp add: power_int_add)
  finally have q: "x / 2 powi (e - 52) = of_int (m * 2 ^ j)" by simp
  have "fl x = of_int (rne (x / 2 powi (e - 52))) * 2 powi (e - 52)"
    using x0 by (simp add: fl_def e_def Let_def)
  also have "\<dots> = of_int (m * 2 ^ j) * 2 powi (e - 52)"
    by (simp only: q rne_of_int)
  also have "\<dots> = of_int m * (2 powi (int j) * 2 powi (e - 52))"
    by simp
  also have "(2::rat) powi (int j) * 2 powi (e - 52) = 2 powi k"
    by (simp add: kj power_int_add)
  finally show ?thesis by (simp add: x_def)
qed

lemma fl_of_nat:
  assumes "n < 2 ^ 53"
  shows "fl (of_nat n) = of_nat n"
proof (cases "n = 0")
  case True
  then show ?thesis by (simp add: fl_def)
next
  case False
  have "int n < 2 ^ 53" using assms by (metis of_nat_less_iff of_nat_numeral of_nat_power)
  then have "fl (of_int (int n) * 2 powi 0) = of_int (int n) * 2 powi 0"
    using False by (intro fl_exact) simp_all
  then show ?thesis by simp
qed

lemma fl_div_CHUNK_SIZE:
  assumes "n < 2 ^ 53"
  shows "fl (of_nat n / of_nat CHUNK_SIZE) = of_nat n / of_nat CHUNK_SIZE"
proof (cases "n = 0")
  case True
  then show ?thesis by (simp add: fl_def)
next
  case False
  have c: "rat_of_nat CHUNK_SIZE = 2 ^ 14" by (simp add: CHUNK_SIZE_def)
  have p: "(2::rat) powi (- 14) = 1 / 2 ^ 14" by (simp add: power_int_def field_simps)
  have "int n < 2 ^ 53" using assms by (metis of_nat_less_iff of_nat_numeral of_nat_power)
  then have "fl (of_int (int n) * 2 powi (- 14)) = of_int (int n) * 2 powi (- 14)"
    using False by (intro fl_exact) simp_all
  then show ?thesis by (simp only: c p) simp
qed

subsection \<open>The progress formula\<close>

lemma progress_of_mono:
  assumes "0 < j" "j \<le> k"
  shows "js_le (progress_of j t) (progress_of k t)"
proof (cases "t = 0")
  case True
  then show ?thesis using assms by (simp add: progress_of_def js_div_def)
next
  case False
  have "rat_of_nat j / of_nat t \<le> of_nat k / of_nat t"
    using assms(2) False by (simp add: divide_right_mono)
  then have "fl (rat_of_nat j / of_nat t) \<le> fl (of_nat k / of_nat t)" by (rule fl_mono)
  then have "fl (rat_of_nat j / of_nat t) * 100 \<le> fl (of_nat k / of_nat t) * 100" by simp
  then have "fl (fl (rat_of_nat j / of_nat t) * 100) \<le> fl (fl (of_nat k / of_nat t) * 100)"
    by (rule fl_mono)
  then have "\<lfloor>fl (fl (rat_of_nat j / of_nat t) * 100) + 1 / 2\<rfloor>
           \<le> \<lfloor>fl (fl (of_nat k / of_nat t) * 100) + 1 / 2\<rfloor>"
    by (intro floor_mono) simp
  then show ?thesis using False by (simp add: progress_of_def js_div_def)
qed

lemma progress_of_full:
  assumes "0 < t"
  shows "progress_of t t = Num 100"
proof -
  have one: "fl 1 = 1" using fl_of_nat[of 1] by simp
  have hundred: "fl 100 = 100" using fl_of_nat[of 100] by simp
  have half: "\<lfloor>(201::rat) / 2\<rfloor> = 100" by (rule floor_unique) simp_all
  show ?thesis using assms by (simp only: progress_of_def js_div_def) (simp add: one hundred half)
qed

lemma progress_of_Suc_0: "progress_of (Suc 0) (Suc 0) = Num 100"
proof -
  have "progress_of 1 1 = Num 100" by code_simp
  then show ?thesis by simp
qed

lemma progress_of_2_1: "progress_of (Suc (Suc 0)) (Suc 0) = Num 200"
proof -
  have "progress_of 2 1 = Num 200" by code_simp
  then show ?thesis by (simp add: numeral_2_eq_2)
qed

lemma progress_of_1_2: "progress_of (Suc 0) 2 = Num 50"
proof -
  have "progress_of 1 2 = Num 50" by code_simp
  then show ?thesis by simp
qed

section \<open>Assembling the buffer\<close>

lemma total_byteLength_eq:
  "total_byteLength tot chunks = tot + length (concat (map chunk_bytes chunks))"
  by (induction chunks arbitrary: tot) (auto split: option.splits)

lemma copy_chunks_eq:
  "offset + length (concat (map chunk_bytes chunks)) \<le> length fileData \<Longrightarrow>
   copy_chunks chunks offset fileData =
     take offset fileData @ concat (map chunk_bytes chunks) @
     drop (offset + length (concat (map chunk_bytes chunks))) fileData"
proof (induction chunks offset fileData rule: copy_chunks.induct)
  case (1 offset fileData)
  then show ?case by simp
next
  case (2 rest offset fileData)
  then show ?case by simp
next
  case (3 b rest offset fileData)
  have len: "length (uint8_set fileData b offset) = length fileData"
    using "3.prems" by (simp add: uint8_set_def)
  have "copy_chunks (Some b # rest) offset fileData =
        copy_chunks rest (offset + length b) (uint8_set fileData b offset)"
    by simp
  also have "\<dots> = take (offset + length b) (uint8_set fileData b offset) @
        concat (map chunk_bytes rest) @
        drop (offset + length b + length (concat (map chunk_bytes rest)))
          (uint8_set fileData b offset)"
    using "3.prems" len by (intro "3.IH") simp
  also have "take (offset + length b) (uint8_set fileData b offset) = take offset fileData @ b"
    using "3.prems" by (simp add: uint8_set_def)
  also have "drop (offset + length b + length (concat (map chunk_bytes rest)))
          (uint8_set fileData b offset) =
        drop (offset + length b + length (concat (map chunk_bytes rest))) fileData"
    using "3.prems" by (simp add: uint8_set_def ac_simps)
  finally show ?case by (simp add: ac_simps)
qed

lemma copy_chunks_concat:
  "copy_chunks chunks 0 (replicate (total_byteLength 0 chunks) 0) = concat (map chunk_bytes chunks)"
  by (simp add: copy_chunks_eq total_byteLength_eq)

lemma assemble_ok:
  assumes "fileChunksRef s \<noteq> []" "concat (map chunk_bytes (fileChunksRef s)) \<noteq> []"
  shows "assembleAndDownloadFile c s =
        s\<lparr>transferStatus := ''completed'',
          effects := effects s @
            [Download (or_else (receivedFileName c) ''downloaded_file'')
                      (or_else (receivedFileType c) ''application/octet-stream'')
                      (concat (map chunk_bytes (fileChunksRef s))),
             Toast ''success'' ''File downloaded successfully!''] @
            (if connectionRef s \<noteq> None \<and> connectionReady c
             then [Send (Text ''FILE_RECEIVED_SUCCESSFULLY'')] else [])\<rparr>"
proof -
  have sz: "total_byteLength 0 (fileChunksRef s) \<noteq> 0"
    using assms(2) by (auto simp: total_byteLength_eq)
  show ?thesis
    unfolding assembleAndDownloadFile_def Let_def using assms(1) sz
    by (simp add: copy_chunks_concat emit_def)
qed

section \<open>Chunks of a file\<close>

lemma chunk_count_less: "k < chunk_count f \<longleftrightarrow> k * CHUNK_SIZE < file_size f"
proof -
  have q: "0 < CHUNK_SIZE" by (simp add: CHUNK_SIZE_def)
  have "k < chunk_count f \<longleftrightarrow> Suc k \<le> (file_size f + CHUNK_SIZE - 1) div CHUNK_SIZE"
    by (simp add: chunk_count_def Suc_le_eq)
  also have "\<dots> \<longleftrightarrow> Suc k * CHUNK_SIZE \<le> file_size f + CHUNK_SIZE - 1"
    using q by (rule less_eq_div_iff_mult_less_eq)
  also have "\<dots> \<longleftrightarrow> k * CHUNK_SIZE < file_size f"
    using q by auto
  finally show ?thesis .
qed

lemma chunk_count_covers: "file_size f \<le> chunk_count f * CHUNK_SIZE"
  using chunk_count_less[of "chunk_count f" f] by simp

lemma chunk_count_pos: "file_bytes f \<noteq> [] \<Longrightarrow> 0 < chunk_count f"
  using chunk_count_less[of 0 f] by (simp add: file_size_def)

lemma ceiling_div_CHUNK_SIZE:
  "\<lceil>rat_of_nat (file_size f) / of_nat CHUNK_SIZE\<rceil> = int (chunk_count f)"
proof (rule ceiling_unique)
  have q: "0 < rat_of_nat CHUNK_SIZE" by (simp add: CHUNK_SIZE_def)
  have "\<not> chunk_count f * CHUNK_SIZE < file_size f"
    using chunk_count_less[of "chunk_count f" f] by simp
  then have "file_size f \<le> chunk_count f * CHUNK_SIZE" by simp
  then have "rat_of_nat (file_size f) \<le> rat_of_nat (chunk_count f * CHUNK_SIZE)"
    by (simp only: of_nat_le_iff)
  then show "rat_of_nat (file_size f) / of_nat CHUNK_SIZE \<le> of_int (int (chunk_count f))"
    using q by (simp add: field_simps)
  show "of_int (int (chunk_count f)) - 1 < rat_of_nat (file_size f) / of_nat CHUNK_SIZE"
  proof (cases "chunk_count f")
    case 0
    have "(0::rat) \<le> rat_of_nat (file_size f) / of_nat CHUNK_SIZE" by simp
    then have "- 1 < rat_of_nat (file_size f) / of_nat CHUNK_SIZE" by linarith
    then show ?thesis using 0 by simp
  next
    case (Suc n)
    then have "n < chunk_count f" by simp
    then have "n * CHUNK_SIZE < file_size f" by (simp add: chunk_count_less)
    then have "rat_of_nat (n * CHUNK_SIZE) < rat_of_nat (file_size f)"
      by (simp only: of_nat_less_iff)
    then have "rat_of_nat n < rat_of_nat (file_size f) / of_nat CHUNK_SIZE"
      using q by (simp add: field_simps)
    then show ?thesis using Suc by simp
  qed
qed

lemma totalChunks_of_eq:
  assumes "file_size f < 2 ^ 53"
  shows "totalChunks_of f = chunk_count f"
  using assms by (simp add: totalChunks_of_def fl_div_CHUNK_SIZE ceiling_div_CHUNK_SIZE)

lemma slice_nth_chunk:
  "slice f (k * CHUNK_SIZE) (min (k * CHUNK_SIZE + CHUNK_SIZE) (file_size f)) = nth_chunk f k"
  by (cases "k * CHUNK_SIZE < file_size f")
     (auto simp: slice_def nth_chunk_def file_size_def min_def)

lemma concat_nth_chunks:
  "concat (map (nth_chunk f) [0..<k]) = take (k * CHUNK_SIZE) (file_bytes f)"
proof (induction k)
  case 0
  show ?case by simp
next
  case (Suc k)
  have "take (k * CHUNK_SIZE) (file_bytes f) @ take CHUNK_SIZE (drop (k * CHUNK_SIZE) (file_bytes f))
        = take (k * CHUNK_SIZE + CHUNK_SIZE) (file_bytes f)"
    by (simp add: take_add)
  then show ?case using Suc by (simp add: nth_chunk_def add.commute)
qed

lemma concat_all_chunks:
  "concat (map (nth_chunk f) [0..<chunk_count f]) = file_bytes f"
  using chunk_count_covers[of f] by (simp add: concat_nth_chunks file_size_def)

lemma length_nth_chunk:
  "length (nth_chunk f k) = min CHUNK_SIZE (file_size f - k * CHUNK_SIZE)"
  by (simp add: nth_chunk_def file_size_def min.commute)

lemma full_chunk_length:
  assumes "Suc k < chunk_count f"
  shows "length (nth_chunk f k) = CHUNK_SIZE"
proof -
  have "Suc k * CHUNK_SIZE < file_size f" using assms by (simp only: chunk_count_less)
  then show ?thesis by (simp add: length_nth_chunk)
qed

lemma last_chunk_length:
  assumes "Suc k = chunk_count f"
  shows "length (nth_chunk f k) =
         (if file_size f mod CHUNK_SIZE = 0 then CHUNK_SIZE else file_size f mod CHUNK_SIZE)"
proof -
  have "k < chunk_count f" using assms by simp
  then have lo: "k * CHUNK_SIZE < file_size f" by (simp only: chunk_count_less)
  have hi: "file_size f \<le> k * CHUNK_SIZE + CHUNK_SIZE"
    using chunk_count_covers[of f] assms[symmetric] by simp
  define d where "d = file_size f - k * CHUNK_SIZE"
  have d: "0 < d" "d \<le> CHUNK_SIZE" "file_size f = k * CHUNK_SIZE + d"
    using lo hi by (simp_all add: d_def)
  have len: "length (nth_chunk f k) = d"
    using d(2) by (simp add: length_nth_chunk d_def)
  show ?thesis
  proof (cases "d = CHUNK_SIZE")
    case True
    then have "file_size f mod CHUNK_SIZE = 0" by (simp add: d(3))
    then show ?thesis using True len by simp
  next
    case False
    then have "d < CHUNK_SIZE" using d(2) by simp
    then have "file_size f mod CHUNK_SIZE = d" by (simp add: d(3))
    then show ?thesis using d(1) len by simp
  qed
qed

lemma chunk_lengths:
  "map (\<lambda>k. length (nth_chunk f k)) [0..<chunk_count f] =
   map (\<lambda>k. if Suc k < chunk_count f then CHUNK_SIZE
             else if file_size f mod CHUNK_SIZE = 0 then CHUNK_SIZE
             else file_size f mod CHUNK_SIZE) [0..<chunk_count f]"
proof (rule map_cong)
  fix k assume "k \<in> set [0..<chunk_count f]"
  then have "Suc k < chunk_count f \<or> Suc k = chunk_count f" by auto
  then show "length (nth_chunk f k) =
     (if Suc k < chunk_count f then CHUNK_SIZE
      else if file_size f mod CHUNK_SIZE = 0 then CHUNK_SIZE
      else file_size f mod CHUNK_SIZE)"
    using full_chunk_length[of k f] last_chunk_length[of k f] by auto
qed simp

lemma sent_of_append_Send: "sent_of (es @ map Send ms) = sent_of es @ ms"
proof (induction es rule: sent_of.induct)
  case 1
  show ?case by (induction ms) simp_all
qed simp_all

lemma chunk_sizes_append: "chunk_sizes (xs @ ys) = chunk_sizes xs @ chunk_sizes ys"
  by (induction xs rule: chunk_sizes.induct) simp_all

lemma chunk_sizes_chunk_messages:
  "chunk_sizes (map (chunk_message f) ks) = map (\<lambda>k. length (nth_chunk f k)) ks"
  by (induction ks) (simp_all add: chunk_message_def)

lemma chunk_sizes_transfer:
  "chunk_sizes (transfer_messages f) = map (\<lambda>k. length (nth_chunk f k)) [0..<chunk_count f]"
  by (simp add: transfer_messages_def metadata_of_def chunk_sizes_append
        chunk_sizes_chunk_messages)

lemma take_transfer_messages:
  assumes "j \<le> chunk_count f"
  shows "take (Suc j) (transfer_messages f) = metadata_of f # map (chunk_message f) [0..<j]"
  using assms by (simp add: transfer_messages_def take_map)

section \<open>The run of the sender\<close>

lemma sendNextChunk_at:
  "sendNextChunk c f (totalChunks_of f) k (min (k * CHUNK_SIZE) (file_size f)) s =
     (if k < chunk_count f then s\<lparr>reads := reads s @ [request c f k]\<rparr>
      else s\<lparr>timers := timers s @ [SendComplete c]\<rparr>)"
proof (cases "k < chunk_count f")
  case True
  then have lt: "k * CHUNK_SIZE < file_size f" by (simp add: chunk_count_less)
  then have m: "min (k * CHUNK_SIZE) (file_size f) = k * CHUNK_SIZE" by simp
  show ?thesis using True lt
    by (simp only: m) (simp add: sendNextChunk_def request_def Let_def slice_nth_chunk)
next
  case False
  then have "\<not> k * CHUNK_SIZE < file_size f" by (simp add: chunk_count_less)
  then show ?thesis using False by (simp add: sendNextChunk_def)
qed

lemma sendFile_connected:
  assumes "connectionRef s \<noteq> None" "connectionStatus c = ''connected''" "connectionReady c"
    and "reads s = []"
  shows "sendFile c f s = sender_after c f s 0"
proof -
  have "sendFile c f s = sendNextChunk c f (totalChunks_of f) 0 (min (0 * CHUNK_SIZE) (file_size f))
     (s\<lparr>transferStatus := ''preparing'', effects := effects s @ [Send (metadata_of f)]\<rparr>)"
    using assms by (auto simp: sendFile_def emit_def metadata_of_def Let_def)
  also have "\<dots> = sender_after c f s 0"
    using assms(4) by (simp only: sendNextChunk_at) (simp add: sender_after_def)
  finally show ?thesis .
qed

lemma deliver_sender_after:
  assumes "connectionRef s \<noteq> None" "connectionReady c" "k < chunk_count f"
  shows "deliver Load (sender_after c f s k) = sender_after c f s (Suc k)"
proof -
  let ?s1 = "(sender_after c f s k)\<lparr>reads := []\<rparr>"
  let ?s3 = "?s1\<lparr>effects := effects ?s1 @ [Send (chunk_message f k)],
     transferProgress := progress_of (Suc k) (totalChunks_of f), transferStatus := ''sending''\<rparr>"
  have e: "rq_end (request c f k) = min (Suc k * CHUNK_SIZE) (file_size f)"
    by (simp add: request_def add.commute)
  have "deliver Load (sender_after c f s k) =
        reader_onload (request c f k) (Some (nth_chunk f k)) ?s1"
    using assms(3) by (simp add: deliver_def sender_after_def request_def)
  also have "\<dots> = sendNextChunk c f (totalChunks_of f) (Suc k)
        (min (Suc k * CHUNK_SIZE) (file_size f)) ?s3"
    using assms(1,2) unfolding reader_onload_def Let_def e[symmetric]
    by (auto simp: sender_after_def emit_def chunk_message_def request_def)
  also have "\<dots> = sender_after c f s (Suc k)"
    using assms(3) by (simp only: sendNextChunk_at) (auto simp: sender_after_def)
  finally show ?thesis .
qed

lemma sendFile_loads:
  assumes "connectionRef s \<noteq> None" "connectionStatus c = ''connected''" "connectionReady c"
    and "reads s = []" and "k \<le> chunk_count f"
  shows "(deliver Load ^^ k) (sendFile c f s) = sender_after c f s k"
  using assms(5)
proof (induction k)
  case 0
  show ?case using assms(1-4) by (simp add: sendFile_connected)
next
  case (Suc k)
  then have "(deliver Load ^^ k) (sendFile c f s) = sender_after c f s k" by simp
  then show ?case using Suc.prems assms(1,3) by (simp add: deliver_sender_after)
qed

lemma sender_progress_after:
  assumes "connectionRef s \<noteq> None" "connectionStatus c = ''connected''" "connectionReady c"
    and "reads s = []" and "0 < k" "k \<le> chunk_count f"
  shows "transferProgress ((deliver Load ^^ k) (sendFile c f s)) =
         progress_of k (totalChunks_of f)"
  using assms by (simp add: sendFile_loads sender_after_def)

lemma fire_sender_after:
  assumes "connectionRef s \<noteq> None" "connectionReady c" "timers s = []"
  shows "fire (sender_after c f s (chunk_count f)) =
    (sender_after c f s (chunk_count f))
      \<lparr>timers := [], transferStatus := ''sent'',
       effects := effects s @ map Send (transfer_messages f)\<rparr>"
  using assms
  by (auto simp: fire_def sender_after_def emit_def transfer_messages_def)

lemma run_transfer_eq:
  assumes "connectionRef s \<noteq> None" "connectionStatus c = ''connected''" "connectionReady c"
    and "reads s = []" "timers s = []"
  shows "run_transfer c f s =
     s\<lparr>transferStatus := ''sent'',
       transferProgress := (if chunk_count f = 0 then transferProgress s
                            else progress_of (chunk_count f) (totalChunks_of f)),
       effects := effects s @ map Send (transfer_messages f)\<rparr>"
proof -
  have "run_transfer c f s = fire (sender_after c f s (chunk_count f))"
    using assms(1-4) by (simp add: run_transfer_def sendFile_loads)
  also have "\<dots> = (sender_after c f s (chunk_count f))
      \<lparr>timers := [], transferStatus := ''sent'',
       effects := effects s @ map Send (transfer_messages f)\<rparr>"
    using assms(1,3,5) by (rule fire_sender_after)
  also have "\<dots> = s\<lparr>transferStatus := ''sent'',
       transferProgress := (if chunk_count f = 0 then transferProgress s
                            else progress_of (chunk_count f) (totalChunks_of f)),
       effects := effects s @ map Send (transfer_messages f)\<rparr>"
    using assms(4,5) by (simp add: sender_after_def)
  finally show ?thesis .
qed

lemma transmitted_run_transfer:
  assumes "connectionRef s \<noteq> None" "connectionStatus c = ''connected''" "connectionReady c"
    and "reads s = []" "timers s = []"
  shows "transmitted s (run_transfer c f s) = transfer_messages f"
  using assms by (simp add: run_transfer_eq transmitted_def sent_of_append_Send)

section \<open>The run of the receiver\<close>

lemma receive_append: "receive c (xs @ ys) s = receive c ys (receive c xs s)"
  by (simp add: receive_def)

lemma receive_metadata:
  "handleReceivedData c (metadata_of f) r = receiver_after f r 0 (timers r)"
  by (simp add: metadata_of_def receiver_after_def emit_def Let_def)

lemma array_set_at_end: "array_set xs (length xs) v = xs @ [Some v]"
  by (simp add: array_set_def)

lemma receive_chunk:
  "\<exists>ts'. handleReceivedData c (chunk_message f k) (receiver_after f r k ts) =
          receiver_after f r (Suc k) ts'"
proof -
  let ?p = "progress_of (Suc k) (totalChunks_of f)"
  let ?ts = "if ?p = Num 100 then ts @ [Watchdog c] else ts"
  have len: "length (map (\<lambda>i. Some (nth_chunk f i)) [0..<k]) = k" by simp
  have "array_set (map (\<lambda>i. Some (nth_chunk f i)) [0..<k]) k (nth_chunk f k) =
        map (\<lambda>i. Some (nth_chunk f i)) [0..<Suc k]"
    using array_set_at_end[of "map (\<lambda>i. Some (nth_chunk f i)) [0..<k]" "nth_chunk f k"]
    by (simp only: len) simp
  then have "handleReceivedData c (chunk_message f k) (receiver_after f r k ts) =
          receiver_after f r (Suc k) ?ts"
    by (simp add: chunk_message_def receiver_after_def Let_def)
  then show ?thesis ..
qed

lemma receive_chunks:
  "\<exists>ts. receive c (metadata_of f # map (chunk_message f) [0..<k]) r = receiver_after f r k ts"
proof (induction k)
  case 0
  have "receive c (metadata_of f # map (chunk_message f) [0..<0]) r =
        receiver_after f r 0 (timers r)"
    by (simp add: receive_def receive_metadata)
  then show ?case ..
next
  case (Suc k)
  then obtain ts where
    ts: "receive c (metadata_of f # map (chunk_message f) [0..<k]) r = receiver_after f r k ts" ..
  have "metadata_of f # map (chunk_message f) [0..<Suc k] =
        (metadata_of f # map (chunk_message f) [0..<k]) @ [chunk_message f k]" by simp
  then have "receive c (metadata_of f # map (chunk_message f) [0..<Suc k]) r =
        handleReceivedData c (chunk_message f k) (receiver_after f r k ts)"
    by (simp only: receive_append ts) (simp add: receive_def)
  then show ?case using receive_chunk[of c f k r ts] by simp
qed

lemma assemble_receiver_after:
  assumes "file_bytes f \<noteq> []"
  shows "assembleAndDownloadFile c (receiver_after f r (chunk_count f) ts) =
     (receiver_after f r (chunk_count f) ts)
       \<lparr>transferStatus := ''completed'',
        effects := effects r @
          [ConsoleWith ''error'' ''Error processing received data:'' (Caught ''TypeError''),
           Toast ''error'' ''Error processing received data'',
           Download (or_else (receivedFileName c) ''downloaded_file'')
                    (or_else (receivedFileType c) ''application/octet-stream'')
                    (file_bytes f),
           Toast ''success'' ''File downloaded successfully!''] @
          (if connectionRef r \<noteq> None \<and> connectionReady c
           then [Send (Text ''FILE_RECEIVED_SUCCESSFULLY'')] else [])\<rparr>"
proof -
  let ?s = "receiver_after f r (chunk_count f) ts"
  have pos: "0 < chunk_count f"
    using assms chunk_count_less[of 0 f] by (simp add: file_size_def)
  have buf: "fileChunksRef ?s = map (\<lambda>i. Some (nth_chunk f i)) [0..<chunk_count f]"
    by (simp add: receiver_after_def)
  have "map chunk_bytes (fileChunksRef ?s) = map (nth_chunk f) [0..<chunk_count f]"
    by (simp add: buf comp_def)
  then have data: "concat (map chunk_bytes (fileChunksRef ?s)) = file_bytes f"
    by (simp only: concat_all_chunks)
  have ne: "fileChunksRef ?s \<noteq> []" using pos by (simp add: buf)
  have conn: "connectionRef ?s = connectionRef r" by (simp add: receiver_after_def)
  have eff: "effects ?s = effects r @
          [ConsoleWith ''error'' ''Error processing received data:'' (Caught ''TypeError''),
           Toast ''error'' ''Error processing received data'']"
    by (simp add: receiver_after_def)
  have "concat (map chunk_bytes (fileChunksRef ?s)) \<noteq> []" unfolding data by (rule assms)
  with ne have "assembleAndDownloadFile c ?s =
        ?s\<lparr>transferStatus := ''completed'',
          effects := effects ?s @
            [Download (or_else (receivedFileName c) ''downloaded_file'')
                      (or_else (receivedFileType c) ''application/octet-stream'')
                      (concat (map chunk_bytes (fileChunksRef ?s))),
             Toast ''success'' ''File downloaded successfully!''] @
            (if connectionRef ?s \<noteq> None \<and> connectionReady c
             then [Send (Text ''FILE_RECEIVED_SUCCESSFULLY'')] else [])\<rparr>"
    by (rule assemble_ok)
  then show ?thesis by (simp only: data conn eff) simp
qed

lemma receive_transfer:
  assumes "file_bytes f \<noteq> []"
  shows "\<exists>ts. receive c (transfer_messages f) r =
     (receiver_after f r (chunk_count f) ts)
       \<lparr>transferStatus := ''completed'',
        effects := effects r @
          [ConsoleWith ''error'' ''Error processing received data:'' (Caught ''TypeError''),
           Toast ''error'' ''Error processing received data'',
           Download (or_else (receivedFileName c) ''downloaded_file'')
                    (or_else (receivedFileType c) ''application/octet-stream'')
                    (file_bytes f),
           Toast ''success'' ''File downloaded successfully!''] @
          (if connectionRef r \<noteq> None \<and> connectionReady c
           then [Send (Text ''FILE_RECEIVED_SUCCESSFULLY'')] else [])\<rparr>"
proof -
  obtain ts where
    ts: "receive c (metadata_of f # map (chunk_message f) [0..<chunk_count f]) r =
         receiver_after f r (chunk_count f) ts"
    using receive_chunks[of c f "chunk_count f" r] ..
  have "transfer_messages f =
        (metadata_of f # map (chunk_message f) [0..<chunk_count f]) @ [FILE_COMPLETE]"
    by (simp add: transfer_messages_def)
  then have "receive c (transfer_messages f) r =
        assembleAndDownloadFile c (receiver_after f r (chunk_count f) ts)"
    by (simp only: receive_append ts) (simp add: receive_def)
  then show ?thesis using assemble_receiver_after[OF assms, of c r ts] by auto
qed

lemma progress_after_chunks:
  assumes "0 < j" "j \<le> chunk_count f"
  shows "transferProgress (receive c (take (Suc j) (transfer_messages f)) r) =
         progress_of j (totalChunks_of f)"
proof -
  obtain ts where "receive c (metadata_of f # map (chunk_message f) [0..<j]) r =
      receiver_after f r j ts"
    using receive_chunks[of c f j r] ..
  then show ?thesis using assms by (simp add: take_transfer_messages receiver_after_def)
qed

section \<open>The witness inputs\<close>

lemma sender0_facts:
  "connectionRef sender0 \<noteq> None" "connectionStatus (render sender0) = ''connected''"
  "connectionReady (render sender0)" "reads sender0 = []" "timers sender0 = []"
  by (simp_all add: sender0_def initial_def render_def Render.truncate_def)

lemma file0_facts:
  "file_size file0 = 3" "chunk_count file0 = 1" "totalChunks_of file0 = 1"
  "nth_chunk file0 0 = [1, 2, 3]" "file_bytes file0 \<noteq> []"
proof -
  show s: "file_size file0 = 3" by (simp add: file_size_def file0_def)
  show c: "chunk_count file0 = 1" by (simp add: chunk_count_def s CHUNK_SIZE_def)
  have "file_size file0 < 2 ^ 53" by (simp add: s)
  then show "totalChunks_of file0 = 1" by (simp add: totalChunks_of_eq c)
  show "nth_chunk file0 0 = [1, 2, 3]" by (simp add: nth_chunk_def file0_def CHUNK_SIZE_def)
  show "file_bytes file0 \<noteq> []" by (simp add: file0_def)
qed

lemma file50000_facts:
  "file_size file50000 = 50000" "totalChunks_of file50000 = 4" "file_bytes file50000 \<noteq> []"
proof -
  show s: "file_size file50000 = 50000" by (simp add: file_size_def file50000_def)
  have c: "chunk_count file50000 = 4" by (simp add: chunk_count_def s CHUNK_SIZE_def)
  have "file_size file50000 < 2 ^ 53" by (simp add: s)
  then show "totalChunks_of file50000 = 4" by (simp add: totalChunks_of_eq c)
  show "file_bytes file50000 \<noteq> []" by (simp add: file50000_def)
qed

lemma chunk_count_file50000: "chunk_count file50000 = 4"
  by (simp add: chunk_count_def file50000_facts CHUNK_SIZE_def)

section \<open>The transfer from end to end\<close>

text \<open>
  C1. For a non-empty file sent over a live connection, the payloads of the chunk
  messages are blocks of 16384 bytes, the last one of \<open>S mod 16384\<close> bytes, or of 16384
  when that is 0. The receiver that handles the messages of the transfer in order ends
  with a buffer whose chunks, concatenated in index order, are the bytes of the file; the
  size it computes is \<open>S\<close>, and the bytes it hands to the download are those of the file.
  The effects of the receiver over the whole transfer are the error report of the
  metadata branch, the download, the success toast and, if the guard of the
  acknowledgement holds, the acknowledgement.
\<close>

theorem transfer_roundtrip:
  assumes "connectionRef s \<noteq> None" "connectionStatus c = ''connected''" "connectionReady c"
    and "reads s = []" "timers s = []" and "file_bytes f \<noteq> []"
  shows "chunk_sizes (transmitted s (run_transfer c f s)) =
           map (\<lambda>k. if Suc k < chunk_count f then 16384
                     else if file_size f mod 16384 = 0 then 16384
                     else file_size f mod 16384) [0..<chunk_count f] \<and>
         concat (map chunk_bytes
           (fileChunksRef (receive c' (transmitted s (run_transfer c f s)) r))) = file_bytes f \<and>
         total_byteLength 0
           (fileChunksRef (receive c' (transmitted s (run_transfer c f s)) r)) = file_size f \<and>
         effects (receive c' (transmitted s (run_transfer c f s)) r) =
           effects r @
           [ConsoleWith ''error'' ''Error processing received data:'' (Caught ''TypeError''),
           Toast ''error'' ''Error processing received data'',
            Download (or_else (receivedFileName c') ''downloaded_file'')
                     (or_else (receivedFileType c') ''application/octet-stream'')
                     (file_bytes f),
            Toast ''success'' ''File downloaded successfully!''] @
           (if connectionRef r \<noteq> None \<and> connectionReady c'
            then [Send (Text ''FILE_RECEIVED_SUCCESSFULLY'')] else [])"
proof -
  let ?r = "receive c' (transmitted s (run_transfer c f s)) r"
  have m: "transmitted s (run_transfer c f s) = transfer_messages f"
    using assms(1-5) by (rule transmitted_run_transfer)
  have a: "chunk_sizes (transmitted s (run_transfer c f s)) =
           map (\<lambda>k. if Suc k < chunk_count f then 16384
                     else if file_size f mod 16384 = 0 then 16384
                     else file_size f mod 16384) [0..<chunk_count f]"
    using chunk_lengths[of f] by (simp add: m chunk_sizes_transfer CHUNK_SIZE_def)
  obtain ts where r: "?r =
     (receiver_after f r (chunk_count f) ts)
       \<lparr>transferStatus := ''completed'',
        effects := effects r @
          [ConsoleWith ''error'' ''Error processing received data:'' (Caught ''TypeError''),
           Toast ''error'' ''Error processing received data'',
           Download (or_else (receivedFileName c') ''downloaded_file'')
                    (or_else (receivedFileType c') ''application/octet-stream'')
                    (file_bytes f),
           Toast ''success'' ''File downloaded successfully!''] @
          (if connectionRef r \<noteq> None \<and> connectionReady c'
           then [Send (Text ''FILE_RECEIVED_SUCCESSFULLY'')] else [])\<rparr>"
    using receive_transfer[OF assms(6), of c' r] unfolding m by blast
  have buf: "fileChunksRef ?r = map (\<lambda>i. Some (nth_chunk f i)) [0..<chunk_count f]"
    by (simp add: r receiver_after_def)
  have "map chunk_bytes (fileChunksRef ?r) = map (nth_chunk f) [0..<chunk_count f]"
    by (simp add: buf comp_def)
  then have b: "concat (map chunk_bytes (fileChunksRef ?r)) = file_bytes f"
    by (simp only: concat_all_chunks)
  have c: "total_byteLength 0 (fileChunksRef ?r) = file_size f"
    by (simp add: total_byteLength_eq b file_size_def)
  have d: "effects ?r = effects r @
           [ConsoleWith ''error'' ''Error processing received data:'' (Caught ''TypeError''),
           Toast ''error'' ''Error processing received data'',
            Download (or_else (receivedFileName c') ''downloaded_file'')
                     (or_else (receivedFileType c') ''application/octet-stream'')
                     (file_bytes f),
            Toast ''success'' ''File downloaded successfully!''] @
           (if connectionRef r \<noteq> None \<and> connectionReady c'
            then [Send (Text ''FILE_RECEIVED_SUCCESSFULLY'')] else [])"
    by (simp add: r)
  show ?thesis using a b c d by simp
qed

theorem transfer_roundtrip_witness:
  "chunk_sizes (transmitted sender0 (run_transfer (render sender0) file50000 sender0)) =
     [16384, 16384, 16384, 848] \<and>
   concat (map chunk_bytes (fileChunksRef
     (receive (render joined0)
        (transmitted sender0 (run_transfer (render sender0) file50000 sender0)) receiver0))) =
     replicate 50000 0 \<and>
   total_byteLength 0 (fileChunksRef
     (receive (render joined0)
        (transmitted sender0 (run_transfer (render sender0) file50000 sender0)) receiver0)) =
     50000 \<and>
   effects (receive (render joined0)
        (transmitted sender0 (run_transfer (render sender0) file50000 sender0)) receiver0) =
     [ConsoleWith ''error'' ''Error processing received data:'' (Caught ''TypeError''),
      Toast ''error'' ''Error processing received data'',
      Download ''downloaded_file'' ''application/octet-stream'' (replicate 50000 0),
      Toast ''success'' ''File downloaded successfully!'']"
proof -
  have u: "[0..<4] = [0, 1, 2, 3::nat]" by (simp add: upt_rec)
  show ?thesis
    using transfer_roundtrip [OF sender0_facts file50000_facts(3), of "render joined0" receiver0]
    by (simp add: file50000_facts chunk_count_file50000 u)
       (simp add: file50000_def receiver0_def joined0_def initial_def render_def
          Render.truncate_def or_else_def)
qed

text \<open>
  C2. For a file whose size is a safe integer, \<^verbatim>\<open>totalChunks\<close> is the ceiling of
  \<open>S / 16384\<close> (for the empty file too), and it is the number of chunk messages of the
  run. A file of 50000 bytes gives 4 chunks of 16384, 16384, 16384 and 848 bytes.
\<close>

theorem totalChunks_is_ceiling:
  assumes "connectionRef s \<noteq> None" "connectionStatus c = ''connected''" "connectionReady c"
    and "reads s = []" "timers s = []" and "file_size f < 2 ^ 53"
  shows "int (totalChunks_of f) = \<lceil>rat_of_nat (file_size f) / 16384\<rceil> \<and>
         length (chunk_sizes (transmitted s (run_transfer c f s))) = totalChunks_of f \<and>
         (file_size f = 50000 \<longrightarrow>
            totalChunks_of f = 4 \<and>
            chunk_sizes (transmitted s (run_transfer c f s)) = [16384, 16384, 16384, 848])"
proof -
  have t: "totalChunks_of f = chunk_count f" using assms(6) by (rule totalChunks_of_eq)
  have m: "transmitted s (run_transfer c f s) = transfer_messages f"
    using assms(1-5) by (rule transmitted_run_transfer)
  have a: "int (totalChunks_of f) = \<lceil>rat_of_nat (file_size f) / 16384\<rceil>"
    using ceiling_div_CHUNK_SIZE[of f] by (simp add: t CHUNK_SIZE_def)
  have b: "length (chunk_sizes (transmitted s (run_transfer c f s))) = totalChunks_of f"
    by (simp add: m t chunk_sizes_transfer)
  have c: "totalChunks_of f = 4 \<and>
      chunk_sizes (transmitted s (run_transfer c f s)) = [16384, 16384, 16384, 848]"
    if s: "file_size f = 50000"
  proof -
    have n: "chunk_count f = 4" by (simp add: chunk_count_def s CHUNK_SIZE_def)
    have u: "[0..<4] = [0, 1, 2, 3::nat]" by (simp add: upt_rec)
    show ?thesis
      by (simp add: m t n chunk_sizes_transfer length_nth_chunk s u) (simp add: CHUNK_SIZE_def)
  qed
  show ?thesis using a b c by simp
qed

theorem totalChunks_is_ceiling_witness:
  "int (totalChunks_of file50000) = \<lceil>rat_of_nat 50000 / 16384\<rceil> \<and>
   totalChunks_of file50000 = 4 \<and>
   chunk_sizes (transmitted sender0 (run_transfer (render sender0) file50000 sender0)) =
     [16384, 16384, 16384, 848]"
proof -
  have small: "file_size file50000 < 2 ^ 53" by (simp add: file50000_facts(1))
  show ?thesis
    using totalChunks_is_ceiling [OF sender0_facts small]
    by (simp add: file50000_facts(1))
qed

text \<open>
  C3. The messages of one run, in order: one \<^verbatim>\<open>FILE_METADATA\<close> with name, size and type;
  then for each index from 0 to \<^verbatim>\<open>totalChunks - 1\<close> one \<^verbatim>\<open>FILE_CHUNK\<close> with that index,
  the block of that index and \<^verbatim>\<open>totalChunks\<close>; then one \<^verbatim>\<open>FILE_COMPLETE\<close>. Exactly one
  read is pending until the last chunk is sent; after the run nothing is pending and the
  phase is \<^verbatim>\<open>sent\<close>.
\<close>

theorem sendFile_message_sequence:
  assumes "connectionRef s \<noteq> None" "connectionStatus c = ''connected''" "connectionReady c"
    and "reads s = []" "timers s = []" and "file_size f < 2 ^ 53"
  shows "transmitted s (run_transfer c f s) =
           [FILE_METADATA (Some (file_name f)) (Some (file_size f)) (Some (file_type f))] @
           map (\<lambda>k. FILE_CHUNK (Some (nth_chunk f k)) (Some k) (Some (totalChunks_of f)))
               [0..<totalChunks_of f] @
           [FILE_COMPLETE] \<and>
         (\<forall>k<totalChunks_of f. length (reads ((deliver Load ^^ k) (sendFile c f s))) = 1) \<and>
         reads (run_transfer c f s) = [] \<and> timers (run_transfer c f s) = [] \<and>
         transferStatus (run_transfer c f s) = ''sent''"
proof -
  have t: "totalChunks_of f = chunk_count f" using assms(6) by (rule totalChunks_of_eq)
  have "transmitted s (run_transfer c f s) = transfer_messages f"
    using assms(1-5) by (rule transmitted_run_transfer)
  then have a: "transmitted s (run_transfer c f s) =
           [FILE_METADATA (Some (file_name f)) (Some (file_size f)) (Some (file_type f))] @
           map (\<lambda>k. FILE_CHUNK (Some (nth_chunk f k)) (Some k) (Some (totalChunks_of f)))
               [0..<totalChunks_of f] @
           [FILE_COMPLETE]"
    by (simp add: transfer_messages_def metadata_of_def chunk_message_def t)
  have b: "\<forall>k<totalChunks_of f. length (reads ((deliver Load ^^ k) (sendFile c f s))) = 1"
    using assms(1-4) by (simp add: t sendFile_loads sender_after_def)
  have c: "reads (run_transfer c f s) = [] \<and> timers (run_transfer c f s) = [] \<and>
         transferStatus (run_transfer c f s) = ''sent''"
    using assms(4,5) by (simp add: run_transfer_eq[OF assms(1-5)])
  show ?thesis using a b c by simp
qed

theorem sendFile_message_sequence_witness:
  "transmitted sender0 (run_transfer (render sender0) file0 sender0) =
     [FILE_METADATA (Some ''a.bin'') (Some 3) (Some ''application/octet-stream''),
      FILE_CHUNK (Some [1, 2, 3]) (Some 0) (Some 1),
      FILE_COMPLETE] \<and>
   length (reads ((deliver Load ^^ 0) (sendFile (render sender0) file0 sender0))) = 1 \<and>
   reads (run_transfer (render sender0) file0 sender0) = [] \<and>
   timers (run_transfer (render sender0) file0 sender0) = [] \<and>
   transferStatus (run_transfer (render sender0) file0 sender0) = ''sent''"
proof -
  have small: "file_size file0 < 2 ^ 53" by (simp add: file0_facts)
  show ?thesis
    using sendFile_message_sequence [OF sender0_facts small]
    by (simp add: file0_facts) (simp add: file0_def)
qed

text \<open>
  C4. Within one transfer of a non-empty file the progress never decreases from one
  update to a later one, on the sender (after \<open>j\<close> and after \<open>k\<close> completed reads) and on
  the receiver (after \<open>j\<close> and after \<open>k\<close> chunks); it is 100 when the sender has sent the
  completion marker and still 100 when the acknowledgement sets its phase to
  \<^verbatim>\<open>completed\<close>, and it is 100 on the receiver, whose phase is then \<^verbatim>\<open>completed\<close>.
\<close>

theorem progress_monotone_and_complete:
  assumes "connectionRef s \<noteq> None" "connectionStatus c = ''connected''" "connectionReady c"
    and "reads s = []" "timers s = []" and "file_bytes f \<noteq> []" "file_size f < 2 ^ 53"
  shows "(\<forall>j k. 0 < j \<and> j \<le> k \<and> k \<le> totalChunks_of f \<longrightarrow>
            js_le (transferProgress ((deliver Load ^^ j) (sendFile c f s)))
                  (transferProgress ((deliver Load ^^ k) (sendFile c f s)))) \<and>
         transferProgress (run_transfer c f s) = Num 100 \<and>
         transferProgress (sender_on_data (Text ''FILE_RECEIVED_SUCCESSFULLY'')
                            (run_transfer c f s)) = Num 100 \<and>
         transferStatus (sender_on_data (Text ''FILE_RECEIVED_SUCCESSFULLY'')
                            (run_transfer c f s)) = ''completed'' \<and>
         (\<forall>j k. 0 < j \<and> j \<le> k \<and> k \<le> totalChunks_of f \<longrightarrow>
            js_le (transferProgress
                     (receive c' (take (Suc j) (transmitted s (run_transfer c f s))) r))
                  (transferProgress
                     (receive c' (take (Suc k) (transmitted s (run_transfer c f s))) r))) \<and>
         transferProgress (receive c' (transmitted s (run_transfer c f s)) r) = Num 100 \<and>
         transferStatus (receive c' (transmitted s (run_transfer c f s)) r) = ''completed''"
proof -
  have t: "totalChunks_of f = chunk_count f" using assms(7) by (rule totalChunks_of_eq)
  have pos: "0 < chunk_count f" using assms(6) by (rule chunk_count_pos)
  have m: "transmitted s (run_transfer c f s) = transfer_messages f"
    using assms(1-5) by (rule transmitted_run_transfer)
  have full: "progress_of (chunk_count f) (totalChunks_of f) = Num 100"
    using pos by (simp add: t progress_of_full)
  have a: "js_le (transferProgress ((deliver Load ^^ j) (sendFile c f s)))
                 (transferProgress ((deliver Load ^^ k) (sendFile c f s)))"
    if "0 < j \<and> j \<le> k \<and> k \<le> totalChunks_of f" for j k
  proof -
    have "transferProgress ((deliver Load ^^ j) (sendFile c f s)) = progress_of j (totalChunks_of f)"
      using that assms(1-4) by (intro sender_progress_after) (simp_all add: t)
    moreover have "transferProgress ((deliver Load ^^ k) (sendFile c f s)) =
        progress_of k (totalChunks_of f)"
      using that assms(1-4) by (intro sender_progress_after) (simp_all add: t)
    ultimately show ?thesis using that by (simp add: progress_of_mono)
  qed
  have run: "run_transfer c f s =
     s\<lparr>transferStatus := ''sent'',
       transferProgress := (if chunk_count f = 0 then transferProgress s
                            else progress_of (chunk_count f) (totalChunks_of f)),
       effects := effects s @ map Send (transfer_messages f)\<rparr>"
    using assms(1-5) by (rule run_transfer_eq)
  have b: "transferProgress (run_transfer c f s) = Num 100"
    using pos by (simp add: run full)
  have b': "transferProgress (sender_on_data (Text ''FILE_RECEIVED_SUCCESSFULLY'')
                            (run_transfer c f s)) = Num 100 \<and>
         transferStatus (sender_on_data (Text ''FILE_RECEIVED_SUCCESSFULLY'')
                            (run_transfer c f s)) = ''completed''"
    using b by (simp add: sender_on_data_def emit_def)
  have d: "js_le (transferProgress (receive c' (take (Suc j) (transmitted s (run_transfer c f s))) r))
                 (transferProgress (receive c' (take (Suc k) (transmitted s (run_transfer c f s))) r))"
    if "0 < j \<and> j \<le> k \<and> k \<le> totalChunks_of f" for j k
  proof -
    have "transferProgress (receive c' (take (Suc j) (transfer_messages f)) r) =
          progress_of j (totalChunks_of f)"
      using that by (intro progress_after_chunks) (simp_all add: t)
    moreover have "transferProgress (receive c' (take (Suc k) (transfer_messages f)) r) =
          progress_of k (totalChunks_of f)"
      using that by (intro progress_after_chunks) (simp_all add: t)
    ultimately show ?thesis using that by (simp add: m progress_of_mono)
  qed
  obtain ts where r: "receive c' (transfer_messages f) r =
     (receiver_after f r (chunk_count f) ts)
       \<lparr>transferStatus := ''completed'',
        effects := effects r @
          [ConsoleWith ''error'' ''Error processing received data:'' (Caught ''TypeError''),
           Toast ''error'' ''Error processing received data'',
           Download (or_else (receivedFileName c') ''downloaded_file'')
                    (or_else (receivedFileType c') ''application/octet-stream'')
                    (file_bytes f),
           Toast ''success'' ''File downloaded successfully!''] @
          (if connectionRef r \<noteq> None \<and> connectionReady c'
           then [Send (Text ''FILE_RECEIVED_SUCCESSFULLY'')] else [])\<rparr>"
    using receive_transfer[OF assms(6), of c' r] by blast
  have e: "transferProgress (receive c' (transmitted s (run_transfer c f s)) r) = Num 100 \<and>
         transferStatus (receive c' (transmitted s (run_transfer c f s)) r) = ''completed''"
    using pos by (simp add: m r receiver_after_def full)
  show ?thesis using a b b' d e by blast
qed

theorem progress_monotone_and_complete_witness:
  "js_le (transferProgress ((deliver Load ^^ 1) (sendFile (render sender0) file50000 sender0)))
         (transferProgress ((deliver Load ^^ 4) (sendFile (render sender0) file50000 sender0))) \<and>
   transferProgress (run_transfer (render sender0) file50000 sender0) = Num 100 \<and>
   transferStatus (sender_on_data (Text ''FILE_RECEIVED_SUCCESSFULLY'')
      (run_transfer (render sender0) file50000 sender0)) = ''completed'' \<and>
   js_le (transferProgress (receive (render initial)
            (take 2 (transmitted sender0 (run_transfer (render sender0) file50000 sender0)))
            initial))
         (transferProgress (receive (render initial)
            (take 5 (transmitted sender0 (run_transfer (render sender0) file50000 sender0)))
            initial)) \<and>
   transferProgress (receive (render initial)
      (transmitted sender0 (run_transfer (render sender0) file50000 sender0)) initial) = Num 100 \<and>
   transferStatus (receive (render initial)
      (transmitted sender0 (run_transfer (render sender0) file50000 sender0)) initial) = ''completed''"
proof -
  have small: "file_size file50000 < 2 ^ 53" by (simp add: file50000_facts)
  have idx: "0 < (1::nat) \<and> (1::nat) \<le> 4 \<and> 4 \<le> totalChunks_of file50000"
    by (simp add: file50000_facts)
  have s2: "Suc 1 = 2" and s5: "Suc 4 = 5" by simp_all
  show ?thesis
    using progress_monotone_and_complete [OF sender0_facts file50000_facts(3) small,
        of "render initial" initial] idx
    unfolding s2[symmetric] s5[symmetric] by blast
qed

section \<open>Single handlers\<close>

text \<open>
  C7. A \<^verbatim>\<open>FILE_CHUNK\<close> message whose \<^verbatim>\<open>data\<close> field is absent is ignored: the warning
  is logged and the application is otherwise unchanged, so no chunk is stored, the
  received count and the progress keep their values and the phase does not become
  \<^verbatim>\<open>error\<close>.
\<close>

theorem chunk_without_data_ignored:
  "handleReceivedData c (FILE_CHUNK None chunkIndex totalChunks) s =
     s\<lparr>effects := effects s @ [Console ''warn'' ''Received chunk without data'']\<rparr>"
  by (simp add: emit_def)

theorem chunk_without_data_ignored_witness:
  "handleReceivedData (render initial) (FILE_CHUNK None (Some 0) (Some 1)) initial =
     initial\<lparr>effects := [Console ''warn'' ''Received chunk without data'']\<rparr>"
  using chunk_without_data_ignored [of "render initial" "Some 0" "Some 1" initial]
  by (simp add: initial_def)

text \<open>
  C8. When the connection status seen by \<^verbatim>\<open>sendFile\<close> is not \<^verbatim>\<open>connected\<close>, the call
  only raises the error toast: no message is sent, no read is started, and phase,
  progress and every other field keep their values.
\<close>

theorem sendFile_not_connected:
  assumes "connectionStatus c \<noteq> ''connected''"
  shows "sendFile c file s =
           s\<lparr>effects := effects s @
             [Toast ''error'' ''No active connection. Please wait for the receiver to connect.'']\<rparr>
         \<and> sent_of (effects (sendFile c file s)) = sent_of (effects s)"
proof -
  have sent: "sent_of (es @ [Toast k t]) = sent_of es" for es k t
    by (induction es rule: sent_of.induct) simp_all
  show ?thesis using assms by (simp add: sendFile_def emit_def sent)
qed

theorem sendFile_not_connected_witness:
  "connectionStatus (render initial) \<noteq> ''connected'' \<and>
   sendFile (render initial) \<lparr>file_name = ''a.bin'', file_type = [], file_bytes = [1, 2, 3]\<rparr> initial =
     initial\<lparr>effects :=
       [Toast ''error'' ''No active connection. Please wait for the receiver to connect.'']\<rparr>"
proof -
  have h: "connectionStatus (render initial) \<noteq> ''connected''"
    by (simp add: render_def Render.truncate_def initial_def)
  show ?thesis
    using h sendFile_not_connected [OF h,
        of "\<lparr>file_name = ''a.bin'', file_type = [], file_bytes = [1, 2, 3]\<rparr>" initial]
    by (simp add: initial_def)
qed

text \<open>
  Finalization, for any closure \<open>c\<close> and any state: with an empty accumulation buffer
  it reports \<^verbatim>\<open>No data received\<close> and sets the phase \<^verbatim>\<open>error\<close>; with a buffer whose
  chunks hold no byte at all it reports \<^verbatim>\<open>Empty file\<close> and sets the phase \<^verbatim>\<open>error\<close>;
  otherwise it hands the concatenation of the stored chunks, in index order, to the
  download and sets the phase \<^verbatim>\<open>completed\<close>. The acknowledgement is sent when the ref
  holds a connection and \<^verbatim>\<open>connectionReady\<close> is true in the render of the closure.
\<close>

lemma assembleAndDownloadFile_cases:
  "(fileChunksRef s = [] \<longrightarrow>
      assembleAndDownloadFile c s =
        s\<lparr>transferStatus := ''error'',
          effects := effects s @
            [Console ''error'' ''No file chunks to assemble'',
             Toast ''error'' ''Error downloading file: No data received'']\<rparr>) \<and>
   (fileChunksRef s \<noteq> [] \<and> concat (map chunk_bytes (fileChunksRef s)) = [] \<longrightarrow>
      assembleAndDownloadFile c s =
        s\<lparr>transferStatus := ''error'',
          effects := effects s @
            [Console ''error'' ''File size is zero'',
             Toast ''error'' ''Error downloading file: Empty file'']\<rparr>) \<and>
   (fileChunksRef s \<noteq> [] \<and> concat (map chunk_bytes (fileChunksRef s)) \<noteq> [] \<longrightarrow>
      assembleAndDownloadFile c s =
        s\<lparr>transferStatus := ''completed'',
          effects := effects s @
            [Download (or_else (receivedFileName c) ''downloaded_file'')
                      (or_else (receivedFileType c) ''application/octet-stream'')
                      (concat (map chunk_bytes (fileChunksRef s))),
             Toast ''success'' ''File downloaded successfully!''] @
            (if connectionRef s \<noteq> None \<and> connectionReady c
             then [Send (Text ''FILE_RECEIVED_SUCCESSFULLY'')] else [])\<rparr>)"
proof (intro conjI impI)
  assume "fileChunksRef s = []"
  then show "assembleAndDownloadFile c s =
        s\<lparr>transferStatus := ''error'',
          effects := effects s @
            [Console ''error'' ''No file chunks to assemble'',
             Toast ''error'' ''Error downloading file: No data received'']\<rparr>"
    by (simp add: assembleAndDownloadFile_def emit_def)
next
  assume "fileChunksRef s \<noteq> [] \<and> concat (map chunk_bytes (fileChunksRef s)) = []"
  then show "assembleAndDownloadFile c s =
        s\<lparr>transferStatus := ''error'',
          effects := effects s @
            [Console ''error'' ''File size is zero'',
             Toast ''error'' ''Error downloading file: Empty file'']\<rparr>"
    by (simp add: assembleAndDownloadFile_def emit_def total_byteLength_eq)
next
  assume a: "fileChunksRef s \<noteq> [] \<and> concat (map chunk_bytes (fileChunksRef s)) \<noteq> []"
  then have sz: "total_byteLength 0 (fileChunksRef s) \<noteq> 0"
    by (auto simp: total_byteLength_eq)
  show "assembleAndDownloadFile c s =
        s\<lparr>transferStatus := ''completed'',
          effects := effects s @
            [Download (or_else (receivedFileName c) ''downloaded_file'')
                      (or_else (receivedFileType c) ''application/octet-stream'')
                      (concat (map chunk_bytes (fileChunksRef s))),
             Toast ''success'' ''File downloaded successfully!''] @
            (if connectionRef s \<noteq> None \<and> connectionReady c
             then [Send (Text ''FILE_RECEIVED_SUCCESSFULLY'')] else [])\<rparr>"
    unfolding assembleAndDownloadFile_def Let_def using a sz
    by (simp add: copy_chunks_concat emit_def)
qed

text \<open>
  C6. The acknowledgement is not sent on a channel that is connected. The data handler
  is the one \<^verbatim>\<open>joinRoom\<close> registers, so it closes over the render in which the room was
  joined, where \<^verbatim>\<open>connectionReady\<close> is still false. The receiver below is connected and
  ready when the three messages of a transfer arrive: it downloads the three bytes and
  sets the phase \<^verbatim>\<open>completed\<close>, but sends nothing back.
\<close>

theorem acknowledgement_not_sent:
  "let r = receive (render joined0)
             [FILE_METADATA (Some ''a.bin'') (Some 3) (Some ''application/octet-stream''),
              FILE_CHUNK (Some [1, 2, 3]) (Some 0) (Some 1),
              FILE_COMPLETE] receiver0
   in connectionStatus r = ''connected'' \<and> connectionReady r \<and>
      connectionRef r = Some (DataConnection ''4f2a9c1e'') \<and>
      transferStatus r = ''completed'' \<and>
      effects r =
        [ConsoleWith ''error'' ''Error processing received data:'' (Caught ''TypeError''),
         Toast ''error'' ''Error processing received data'',
         Download ''downloaded_file'' ''application/octet-stream'' [1, 2, 3],
         Toast ''success'' ''File downloaded successfully!''] \<and>
      sent_of (effects r) = []"
  by (simp add: receive_def receiver0_def joined0_def initial_def render_def
        Render.truncate_def emit_def Let_def array_set_def progress_of_Suc_0 or_else_def
        assembleAndDownloadFile_def uint8_set_def)

text \<open>
  C10. Two well-formed chunks with the same index: the second payload replaces the first
  in the buffer, yet the received count is incremented twice, so it exceeds the latched
  \<^verbatim>\<open>totalChunks\<close> and the progress is 200.
\<close>

theorem duplicate_chunk_index_overcounts:
  "let s = receive c [FILE_METADATA (Some ''a.bin'') (Some 1) (Some []),
                      FILE_CHUNK (Some [1]) (Some 0) (Some 1),
                      FILE_CHUNK (Some [2]) (Some 0) (Some 1)] initial
   in fileChunksRef s = [Some [2]] \<and> receivedChunksRef s = 2 \<and> totalChunksRef s = 1 \<and>
      transferProgress s = Num 200"
  by (simp add: receive_def initial_def emit_def Let_def array_set_def
        progress_of_Suc_0 progress_of_2_1 or_else_def)

theorem duplicate_chunk_index_overcounts_witness:
  "fileChunksRef (receive (render initial)
       [FILE_METADATA (Some ''a.bin'') (Some 1) (Some []),
        FILE_CHUNK (Some [1]) (Some 0) (Some 1),
        FILE_CHUNK (Some [2]) (Some 0) (Some 1)] initial) = [Some [2]] \<and>
   receivedChunksRef (receive (render initial)
       [FILE_METADATA (Some ''a.bin'') (Some 1) (Some []),
        FILE_CHUNK (Some [1]) (Some 0) (Some 1),
        FILE_CHUNK (Some [2]) (Some 0) (Some 1)] initial) = 2 \<and>
   transferProgress (receive (render initial)
       [FILE_METADATA (Some ''a.bin'') (Some 1) (Some []),
        FILE_CHUNK (Some [1]) (Some 0) (Some 1),
        FILE_CHUNK (Some [2]) (Some 0) (Some 1)] initial) = Num 200"
  using duplicate_chunk_index_overcounts [of "render initial"]
  by (simp add: Let_def)

text \<open>
  C5. A second \<^verbatim>\<open>FILE_METADATA\<close> in the middle of a transfer empties the buffer, resets
  both counters, records the new name and sets the phase \<^verbatim>\<open>receiving\<close>, but the
  progress keeps the value of the interrupted transfer: here 50, not 0.
\<close>

theorem second_metadata_keeps_progress:
  "let s = receive c [FILE_METADATA (Some ''a.bin'') (Some 2) (Some []),
                      FILE_CHUNK (Some [1]) (Some 0) (Some 2),
                      FILE_METADATA (Some ''b.bin'') (Some 1) (Some [])] initial
   in fileChunksRef s = [] \<and> receivedChunksRef s = 0 \<and> totalChunksRef s = 0 \<and>
      receivedFileName s = ''b.bin'' \<and> receivedFileSize s = 1 \<and>
      transferStatus s = ''receiving'' \<and> transferProgress s = Num 50"
  by (simp add: receive_def initial_def emit_def Let_def array_set_def
        progress_of_1_2 or_else_def)

text \<open>
  Two calls of the same closure, that is within one render, set the same role twice: the
  closure reads \<^verbatim>\<open>joinMode\<close> from its render, not from the live application.
\<close>

lemma switchMode_same_render: "switchMode c (switchMode c s) = switchMode c s"
  by (simp add: switchMode_def emit_def Let_def split: option.splits)

text \<open>
  C9, as the code has it. One call of \<^verbatim>\<open>switchMode\<close> closes the connection and then
  destroys the peer (when there are any), clears both refs, resets status, selected file,
  progress, phase, join code and the two readiness flags, and flips the role. A second
  call from the next render, as a second click on the button is, changes nothing but the
  role, which it flips back. The effect hook that React runs once the role has changed
  is not part of \<^verbatim>\<open>switchMode\<close>.
\<close>

theorem switchMode_twice:
  "from_current_render switchMode s =
     s\<lparr>joinMode := \<not> joinMode s, connectionStatus := ''disconnected'',
       selectedFile := None, transferProgress := Num 0, transferStatus := [],
       joinRoomId := [], peerReady := False, connectionReady := False,
       connectionRef := None, peerRef := None,
       effects := effects s @
         (case connectionRef s of Some conn \<Rightarrow> [Close conn] | None \<Rightarrow> []) @
         (case peerRef s of Some peer \<Rightarrow> [Destroy peer] | None \<Rightarrow> [])\<rparr> \<and>
   from_current_render switchMode (from_current_render switchMode s) =
     (from_current_render switchMode s)\<lparr>joinMode := joinMode s\<rparr>"
  by (simp add: from_current_render_def switchMode_def render_def Render.truncate_def
        emit_def Let_def split: option.splits)

theorem switchMode_twice_witness:
  "from_current_render switchMode
     (initial\<lparr>connectionStatus := ''connected'', connectionReady := True,
              connectionRef := Some (DataConnection ''room''), peerRef := Some (Peer ''room''),
              transferProgress := Num 50, transferStatus := ''sending''\<rparr>) =
     initial\<lparr>joinMode := True,
       effects := [Close (DataConnection ''room''), Destroy (Peer ''room'')]\<rparr> \<and>
   from_current_render switchMode (from_current_render switchMode
     (initial\<lparr>connectionStatus := ''connected'', connectionReady := True,
              connectionRef := Some (DataConnection ''room''), peerRef := Some (Peer ''room''),
              transferProgress := Num 50, transferStatus := ''sending''\<rparr>)) =
     initial\<lparr>effects := [Close (DataConnection ''room''), Destroy (Peer ''room'')]\<rparr>"
  by (simp add: switchMode_twice initial_def)

text \<open>
  C9, as the specification has it, fails: after two calls in succession the role is the
  one before the first call.
\<close>

theorem switchMode_not_idempotent:
  "from_current_render switchMode (from_current_render switchMode initial) \<noteq>
   from_current_render switchMode initial"
  by (simp add: from_current_render_def switchMode_def render_def Render.truncate_def
        emit_def Let_def initial_def)

end
